theory Spec2Isabelle
  imports Main "HOL-Library.Sublist" "HOL-Library.Char_ord"
begin

section \<open>Go strings and the functions of package strings the service calls\<close>

text \<open>
  A Go string is a sequence of bytes; \<^typ>\<open>string\<close> is a list of 8-bit characters.
  \<open>Index s substr\<close> is the position of the first occurrence of \<open>substr\<close> in \<open>s\<close>
  (\<open>None\<close> for Go's \<open>-1\<close>).
\<close>

fun Index :: "string \<Rightarrow> string \<Rightarrow> nat option" where
  "Index [] substr = (if substr = [] then Some 0 else None)"
| "Index (c # t) substr =
     (if prefix substr (c # t) then Some 0 else map_option Suc (Index t substr))"

definition LastIndex :: "string \<Rightarrow> string \<Rightarrow> nat option" where
  "LastIndex s substr =
     (case Index (rev s) (rev substr) of
        None \<Rightarrow> None
      | Some j \<Rightarrow> Some (length s - j - length substr))"

definition Contains :: "string \<Rightarrow> string \<Rightarrow> bool" where
  "Contains s substr = (Index s substr \<noteq> None)"

definition HasPrefix :: "string \<Rightarrow> string \<Rightarrow> bool" where
  "HasPrefix s p = prefix p s"

definition HasSuffix :: "string \<Rightarrow> string \<Rightarrow> bool" where
  "HasSuffix s p = suffix p s"

definition Cut :: "string \<Rightarrow> string \<Rightarrow> string \<times> string \<times> bool" where
  "Cut s sep =
     (case Index s sep of
        None \<Rightarrow> (s, [], False)
      | Some i \<Rightarrow> (take i s, drop (i + length sep) s, True))"

lemma Index_le: "Index s substr = Some m \<Longrightarrow> m + length substr \<le> length s"
proof (induction s arbitrary: m)
  case Nil
  then show ?case by (simp split: if_splits)
next
  case (Cons c t)
  show ?case
  proof (cases "prefix substr (c # t)")
    case True
    with Cons.prems have "m = 0" by simp
    with True prefix_length_le [of substr "c # t"] show ?thesis by simp
  next
    case False
    with Cons.prems obtain m' where "Index t substr = Some m'" "m = Suc m'" by auto
    with Cons.IH show ?thesis by fastforce
  qed
qed

lemma Index_drop_less:
  "substr \<noteq> [] \<Longrightarrow> Index s substr = Some m \<Longrightarrow> length (drop (m + length substr) s) < length s"
  using Index_le [of s substr m] by (cases substr) auto

text \<open>
  \<open>Count\<close>, \<open>Split\<close> and \<open>ReplaceAll\<close> walk over the non-overlapping occurrences of a
  separator from the left. With an empty separator Go works on UTF-8 sequences; the
  service never passes one, and the model then works byte by byte.
\<close>

function Count :: "string \<Rightarrow> string \<Rightarrow> nat" where
  "Count s substr =
     (if substr = [] then length s + 1
      else (case Index s substr of
              None \<Rightarrow> 0
            | Some m \<Rightarrow> Suc (Count (drop (m + length substr) s) substr)))"
  by pat_completeness auto
termination
  by (relation "measure (\<lambda>(s, substr). length s)") (auto dest: Index_drop_less)

function Split :: "string \<Rightarrow> string \<Rightarrow> string list" where
  "Split s sep =
     (if sep = [] then map (\<lambda>c. [c]) s
      else (case Index s sep of
              None \<Rightarrow> [s]
            | Some m \<Rightarrow> take m s # Split (drop (m + length sep) s) sep))"
  by pat_completeness auto
termination
  by (relation "measure (\<lambda>(s, sep). length s)") (auto dest: Index_drop_less)

function ReplaceAll :: "string \<Rightarrow> string \<Rightarrow> string \<Rightarrow> string" where
  "ReplaceAll s old new =
     (if old = [] then new @ concat (map (\<lambda>c. c # new) s)
      else (case Index s old of
              None \<Rightarrow> s
            | Some m \<Rightarrow> take m s @ new @ ReplaceAll (drop (m + length old) s) old new))"
  by pat_completeness auto
termination
  by (relation "measure (\<lambda>(s, old, new). length s)") (auto dest: Index_drop_less)

declare Count.simps [simp del] Split.simps [simp del] ReplaceAll.simps [simp del]

text \<open>\<open>ToLower\<close> on the bytes of a URL scheme, which are ASCII.\<close>

definition ToLower :: "string \<Rightarrow> string" where
  "ToLower s =
     map (\<lambda>c. case map_of (zip ''ABCDEFGHIJKLMNOPQRSTUVWXYZ'' ''abcdefghijklmnopqrstuvwxyz'') c of
                 Some l \<Rightarrow> l
               | None \<Rightarrow> c) s"

section \<open>Package net/url: \<open>ParseRequestURI\<close> and \<open>String\<close>\<close>

text \<open>
  The handlers parse with \<open>url.ParseRequestURI\<close> and store \<open>url.String()\<close>. Both are
  modelled after the standard library of Go 1.21 (the version the deploy workflow builds
  with), function by function.
\<close>

datatype encoding =
  encodePath | encodePathSegment | encodeHost | encodeZone
  | encodeUserPassword | encodeQueryComponent | encodeFragment

datatype url_err = EscapeError string | InvalidHostError string | errorString string

record Userinfo =
  username :: string
  password :: string
  passwordSet :: bool

record URL =
  Scheme :: string
  Opaque :: string
  User :: "Userinfo option"
  Host :: string
  Path :: string
  RawPath :: string
  OmitHost :: bool
  ForceQuery :: bool
  RawQuery :: string
  Fragment :: string
  RawFragment :: string

definition emptyURL :: URL where
  "emptyURL =
     \<lparr>Scheme = [], Opaque = [], User = None, Host = [], Path = [], RawPath = [],
      OmitHost = False, ForceQuery = False, RawQuery = [], Fragment = [], RawFragment = []\<rparr>"

text \<open>Go's test \<open>lo <= c && c <= hi\<close> on a byte.\<close>

definition between :: "char \<Rightarrow> char \<Rightarrow> char \<Rightarrow> bool" where
  "between lo c hi = (lo \<le> c \<and> c \<le> hi)"

definition isAlpha :: "char \<Rightarrow> bool" where
  "isAlpha c = (between (CHR ''a'') c (CHR ''z'') \<or> between (CHR ''A'') c (CHR ''Z''))"

definition isDigit :: "char \<Rightarrow> bool" where
  "isDigit c = between (CHR ''0'') c (CHR ''9'')"

definition ishex :: "char \<Rightarrow> bool" where
  "ishex c =
     (between (CHR ''0'') c (CHR ''9'') \<or> between (CHR ''a'') c (CHR ''f'')
      \<or> between (CHR ''A'') c (CHR ''F''))"

definition unhex :: "char \<Rightarrow> nat" where
  "unhex c =
     (if between (CHR ''0'') c (CHR ''9'') then of_char c - 48
      else if between (CHR ''a'') c (CHR ''f'') then of_char c - 97 + 10
      else if between (CHR ''A'') c (CHR ''F'') then of_char c - 65 + 10
      else 0)"

definition upperhex :: string where
  "upperhex = ''0123456789ABCDEF''"

definition stringContainsCTLByte :: "string \<Rightarrow> bool" where
  "stringContainsCTLByte s = list_ex (\<lambda>b. b < CHR 0x20 \<or> b = CHR 0x7F) s"

definition shouldEscape :: "char \<Rightarrow> encoding \<Rightarrow> bool" where
  "shouldEscape c mode =
     (if isAlpha c \<or> isDigit c then False
      else if (mode = encodeHost \<or> mode = encodeZone)
              \<and> c \<in> set (''!$&()*+,;=:[]<>'' @ [CHR 0x27, CHR 0x22]) then False
      else if c \<in> set ''-_.~'' then False
      else if c \<in> set ''$&+,/:;=?@'' \<and> mode = encodePath then c = CHR ''?''
      else if c \<in> set ''$&+,/:;=?@'' \<and> mode = encodePathSegment then c \<in> set ''/;,?''
      else if c \<in> set ''$&+,/:;=?@'' \<and> mode = encodeUserPassword then c \<in> set ''@/?:''
      else if c \<in> set ''$&+,/:;=?@'' \<and> mode = encodeQueryComponent then True
      else if c \<in> set ''$&+,/:;=?@'' \<and> mode = encodeFragment then False
      else if mode = encodeFragment \<and> c \<in> set ''!()*'' then False
      else True)"

text \<open>
  \<open>unescape\<close> checks and decodes in one pass from the left; Go checks the whole string
  first and decodes afterwards, which gives the same error (that of the leftmost
  offending byte) and the same decoded string.
\<close>

fun unescape :: "string \<Rightarrow> encoding \<Rightarrow> url_err + string" where
  "unescape [] mode = Inr []"
| "unescape (c # s) mode =
     (if c = CHR ''%'' then
        (case s of
           h1 # h2 # rest \<Rightarrow>
             if \<not> (ishex h1 \<and> ishex h2) then Inl (EscapeError (take 3 (c # s)))
             else if mode = encodeHost \<and> unhex h1 < 8 \<and> [c, h1, h2] \<noteq> ''%25''
               then Inl (EscapeError [c, h1, h2])
             else if mode = encodeZone \<and> [c, h1, h2] \<noteq> ''%25''
                     \<and> char_of (unhex h1 * 16 + unhex h2) \<noteq> CHR '' ''
                     \<and> shouldEscape (char_of (unhex h1 * 16 + unhex h2)) encodeHost
               then Inl (EscapeError [c, h1, h2])
             else (case unescape rest mode of
                     Inl e \<Rightarrow> Inl e
                   | Inr t \<Rightarrow> Inr (char_of (unhex h1 * 16 + unhex h2) # t))
         | _ \<Rightarrow> Inl (EscapeError (take 3 (c # s))))
      else if c = CHR ''+'' then
        (case unescape s mode of
           Inl e \<Rightarrow> Inl e
         | Inr t \<Rightarrow> Inr ((if mode = encodeQueryComponent then CHR '' '' else CHR ''+'') # t))
      else if (mode = encodeHost \<or> mode = encodeZone) \<and> c < CHR 0x80
              \<and> shouldEscape c encodeHost then Inl (InvalidHostError [c])
      else (case unescape s mode of
              Inl e \<Rightarrow> Inl e
            | Inr t \<Rightarrow> Inr (c # t)))"

definition escape :: "string \<Rightarrow> encoding \<Rightarrow> string" where
  "escape s mode =
     concat (map (\<lambda>c. if shouldEscape c mode then
                         (if c = CHR '' '' \<and> mode = encodeQueryComponent then ''+''
                          else [CHR ''%'', upperhex ! (of_char c div 16),
                                upperhex ! (of_char c mod 16)])
                       else [c]) s)"

definition validEncoded :: "string \<Rightarrow> encoding \<Rightarrow> bool" where
  "validEncoded s mode =
     list_all (\<lambda>c. c \<in> set (''!$&()*+,;=:@[]%'' @ [CHR 0x27]) \<or> \<not> shouldEscape c mode) s"

fun getScheme_from :: "string \<Rightarrow> nat \<Rightarrow> string \<Rightarrow> url_err + string \<times> string" where
  "getScheme_from rawURL i [] = Inr ([], rawURL)"
| "getScheme_from rawURL i (c # cs) =
     (if isAlpha c then getScheme_from rawURL (Suc i) cs
      else if isDigit c \<or> c \<in> set ''+-.''
        then (if i = 0 then Inr ([], rawURL) else getScheme_from rawURL (Suc i) cs)
      else if c = CHR '':''
        then (if i = 0 then Inl (errorString ''missing protocol scheme'')
              else Inr (take i rawURL, drop (Suc i) rawURL))
      else Inr ([], rawURL))"

definition getScheme :: "string \<Rightarrow> url_err + string \<times> string" where
  "getScheme rawURL = getScheme_from rawURL 0 rawURL"

definition validOptionalPort :: "string \<Rightarrow> bool" where
  "validOptionalPort port =
     (case port of
        [] \<Rightarrow> True
      | c # ds \<Rightarrow> c = CHR '':'' \<and> list_all isDigit ds)"

definition validUserinfo :: "string \<Rightarrow> bool" where
  "validUserinfo s =
     list_all (\<lambda>r. isAlpha r \<or> isDigit r
                    \<or> r \<in> set (''-._:~!$&()*+,;=%@'' @ [CHR 0x27])) s"

definition parseHost :: "string \<Rightarrow> url_err + string" where
  "parseHost host =
     (if HasPrefix host ''['' then
        (case LastIndex host '']'' of
           None \<Rightarrow> Inl (errorString ''missing ] in host'')
         | Some i \<Rightarrow>
             if \<not> validOptionalPort (drop (i + 1) host)
               then Inl (errorString ''invalid port after host'')
             else (case Index (take i host) ''%25'' of
                     None \<Rightarrow> unescape host encodeHost
                   | Some zone \<Rightarrow>
                       (case unescape (take zone host) encodeHost of
                          Inl e \<Rightarrow> Inl e
                        | Inr host1 \<Rightarrow>
                            (case unescape (take (i - zone) (drop zone host)) encodeZone of
                               Inl e \<Rightarrow> Inl e
                             | Inr host2 \<Rightarrow>
                                 (case unescape (drop i host) encodeHost of
                                    Inl e \<Rightarrow> Inl e
                                  | Inr host3 \<Rightarrow> Inr (host1 @ host2 @ host3))))))
      else (case LastIndex host '':'' of
              None \<Rightarrow> unescape host encodeHost
            | Some i \<Rightarrow>
                if \<not> validOptionalPort (drop i host)
                  then Inl (errorString ''invalid port after host'')
                else unescape host encodeHost))"

definition parseUserinfo :: "string \<Rightarrow> url_err + Userinfo" where
  "parseUserinfo userinfo =
     (if \<not> validUserinfo userinfo then Inl (errorString ''net/url: invalid userinfo'')
      else if \<not> Contains userinfo '':'' then
        (case unescape userinfo encodeUserPassword of
           Inl e \<Rightarrow> Inl e
         | Inr u \<Rightarrow> Inr \<lparr>username = u, password = [], passwordSet = False\<rparr>)
      else
        (case Cut userinfo '':'' of
           (username0, password0, _) \<Rightarrow>
             (case unescape username0 encodeUserPassword of
                Inl e \<Rightarrow> Inl e
              | Inr u \<Rightarrow>
                  (case unescape password0 encodeUserPassword of
                     Inl e \<Rightarrow> Inl e
                   | Inr p \<Rightarrow> Inr \<lparr>username = u, password = p, passwordSet = True\<rparr>))))"

definition parseAuthority :: "string \<Rightarrow> url_err + Userinfo option \<times> string" where
  "parseAuthority authority =
     (case LastIndex authority ''@'' of
        None \<Rightarrow>
          (case parseHost authority of
             Inl e \<Rightarrow> Inl e
           | Inr host \<Rightarrow> Inr (None, host))
      | Some i \<Rightarrow>
          (case parseHost (drop (i + 1) authority) of
             Inl e \<Rightarrow> Inl e
           | Inr host \<Rightarrow>
               (case parseUserinfo (take i authority) of
                  Inl e \<Rightarrow> Inl e
                | Inr user \<Rightarrow> Inr (Some user, host))))"

definition setPath :: "URL \<Rightarrow> string \<Rightarrow> url_err + URL" where
  "setPath u p =
     (case unescape p encodePath of
        Inl e \<Rightarrow> Inl e
      | Inr path \<Rightarrow>
          Inr (u\<lparr>Path := path,
                 RawPath := (if p = escape path encodePath then [] else p)\<rparr>))"

text \<open>
  \<open>parse\<close> in three steps, as the source has them: the scheme and the query, then the
  authority, then the path. \<open>viaRequest\<close> is true for \<open>ParseRequestURI\<close>.
\<close>

definition parse_authority_path :: "URL \<Rightarrow> string \<Rightarrow> bool \<Rightarrow> url_err + URL" where
  "parse_authority_path url rest viaRequest =
     (if (Scheme url \<noteq> [] \<or> (\<not> viaRequest \<and> \<not> HasPrefix rest ''///''))
         \<and> HasPrefix rest ''//'' then
        (case (case Index (drop 2 rest) ''/'' of
                 None \<Rightarrow> (drop 2 rest, [])
               | Some i \<Rightarrow> (take i (drop 2 rest), drop i (drop 2 rest))) of
           (authority, rest') \<Rightarrow>
             (case parseAuthority authority of
                Inl e \<Rightarrow> Inl e
              | Inr (user, host) \<Rightarrow> setPath (url\<lparr>User := user, Host := host\<rparr>) rest'))
      else if Scheme url \<noteq> [] \<and> HasPrefix rest ''/''
        then setPath (url\<lparr>OmitHost := True\<rparr>) rest
      else setPath url rest)"

definition parse_rest :: "URL \<Rightarrow> string \<Rightarrow> bool \<Rightarrow> url_err + URL" where
  "parse_rest url rest viaRequest =
     (if \<not> HasPrefix rest ''/'' \<and> Scheme url \<noteq> [] then Inr (url\<lparr>Opaque := rest\<rparr>)
      else if \<not> HasPrefix rest ''/'' \<and> viaRequest
        then Inl (errorString ''invalid URI for request'')
      else if \<not> HasPrefix rest ''/'' \<and> Contains (fst (Cut rest ''/'')) '':''
        then Inl (errorString ''first path segment in URL cannot contain colon'')
      else parse_authority_path url rest viaRequest)"

definition parse :: "string \<Rightarrow> bool \<Rightarrow> url_err + URL" where
  "parse rawURL viaRequest =
     (if stringContainsCTLByte rawURL
        then Inl (errorString ''net/url: invalid control character in URL'')
      else if rawURL = [] \<and> viaRequest then Inl (errorString ''empty url'')
      else if rawURL = ''*'' then Inr (emptyURL\<lparr>Path := ''*''\<rparr>)
      else (case getScheme rawURL of
              Inl e \<Rightarrow> Inl e
            | Inr (scheme, rest) \<Rightarrow>
                if HasSuffix rest ''?'' \<and> Count rest ''?'' = 1
                  then parse_rest (emptyURL\<lparr>Scheme := ToLower scheme, ForceQuery := True\<rparr>)
                         (take (length rest - 1) rest) viaRequest
                else (case Cut rest ''?'' of
                        (path, query, _) \<Rightarrow>
                          parse_rest (emptyURL\<lparr>Scheme := ToLower scheme, RawQuery := query\<rparr>)
                            path viaRequest)))"

text \<open>
  Go's \<open>error\<close> values of the service: a \<open>*url.Error\<close> (operation, URL, cause),
  \<open>sql.ErrNoRows\<close>, and a failure reported by the SQLite driver.
\<close>

datatype error = url_Error string string url_err | ErrNoRows | sqlite3_Error string

text \<open>
  \<open>ParseRequestURI\<close> returns the Go pair of a \<open>*URL\<close> and an \<open>error\<close>; \<open>None\<close> in the
  first component is the nil pointer it returns together with an error.
\<close>

definition ParseRequestURI :: "string \<Rightarrow> URL option \<times> error option" where
  "ParseRequestURI rawURL =
     (case parse rawURL True of
        Inl err \<Rightarrow> (None, Some (url_Error ''parse'' rawURL err))
      | Inr url \<Rightarrow> (Some url, None))"

text \<open>
  \<open>url.Parse\<close>, which \<open>http.Redirect\<close> calls on its target: the fragment is cut off
  first, and the rest is parsed with \<open>viaRequest\<close> false.
\<close>

definition setFragment :: "URL \<Rightarrow> string \<Rightarrow> url_err + URL" where
  "setFragment u f =
     (case unescape f encodeFragment of
        Inl e \<Rightarrow> Inl e
      | Inr frag \<Rightarrow>
          Inr (u\<lparr>Fragment := frag,
                 RawFragment := (if f = escape frag encodeFragment then [] else f)\<rparr>))"

definition Parse :: "string \<Rightarrow> URL option \<times> error option" where
  "Parse rawURL =
     (case Cut rawURL ''#'' of
        (u, frag, found) \<Rightarrow>
          (case parse u False of
             Inl err \<Rightarrow> (None, Some (url_Error ''parse'' u err))
           | Inr url \<Rightarrow>
               if frag = [] then (Some url, None)
               else (case setFragment url frag of
                       Inl err \<Rightarrow> (None, Some (url_Error ''parse'' rawURL err))
                     | Inr url' \<Rightarrow> (Some url', None))))"

definition Userinfo_String :: "Userinfo \<Rightarrow> string" where
  "Userinfo_String u =
     (if passwordSet u
        then escape (username u) encodeUserPassword @ '':''
             @ escape (password u) encodeUserPassword
      else escape (username u) encodeUserPassword)"

definition EscapedPath :: "URL \<Rightarrow> string" where
  "EscapedPath u =
     (if RawPath u \<noteq> [] \<and> validEncoded (RawPath u) encodePath
         \<and> unescape (RawPath u) encodePath = Inr (Path u) then RawPath u
      else if Path u = ''*'' then ''*''
      else escape (Path u) encodePath)"

definition EscapedFragment :: "URL \<Rightarrow> string" where
  "EscapedFragment u =
     (if RawFragment u \<noteq> [] \<and> validEncoded (RawFragment u) encodeFragment
         \<and> unescape (RawFragment u) encodeFragment = Inr (Fragment u) then RawFragment u
      else escape (Fragment u) encodeFragment)"

definition String_authority :: "URL \<Rightarrow> string" where
  "String_authority u =
     (if (Scheme u \<noteq> [] \<or> Host u \<noteq> [] \<or> User u \<noteq> None)
         \<and> \<not> (OmitHost u \<and> Host u = [] \<and> User u = None)
        then (if Host u \<noteq> [] \<or> Path u \<noteq> [] \<or> User u \<noteq> None then ''//'' else [])
             @ (case User u of None \<Rightarrow> [] | Some ui \<Rightarrow> Userinfo_String ui @ ''@'')
             @ (if Host u \<noteq> [] then escape (Host u) encodeHost else [])
      else [])"

definition String_hier :: "URL \<Rightarrow> string \<Rightarrow> string" where
  "String_hier u buf =
     (if EscapedPath u \<noteq> [] \<and> hd (EscapedPath u) \<noteq> CHR ''/'' \<and> Host u \<noteq> []
        then buf @ ''/'' @ EscapedPath u
      else if buf = [] \<and> Contains (fst (Cut (EscapedPath u) ''/'')) '':''
        then ''./'' @ EscapedPath u
      else buf @ EscapedPath u)"

definition String :: "URL \<Rightarrow> string" where
  "String u =
     (if Opaque u \<noteq> [] then (if Scheme u \<noteq> [] then Scheme u @ '':'' else []) @ Opaque u
      else String_hier u ((if Scheme u \<noteq> [] then Scheme u @ '':'' else []) @ String_authority u))
     @ (if ForceQuery u \<or> RawQuery u \<noteq> [] then ''?'' @ RawQuery u else [])
     @ (if Fragment u \<noteq> [] then ''#'' @ EscapedFragment u else [])"

section \<open>The link store\<close>

text \<open>
  The SQLite database behind \<open>db.Connection\<close>: the tables \<open>authorization\<close> and \<open>links\<close>
  with their rows in scan order. \<open>main\<close> only logs a failed \<open>create table\<close>, so a table
  may be missing (\<open>None\<close>); every statement on a missing table fails.
\<close>

record authorization_row =
  auth_id :: int
  key :: string
  auth_date_created :: nat

record link_row =
  short_url :: string
  full_url :: string
  date_created :: nat

record db =
  authorization :: "authorization_row list option"
  links :: "link_row list option"

record shortURL =
  Value :: string

datatype 'a outcome = Return 'a | Panic string

text \<open>
  \<open>QueryRow(...).Scan(&v)\<close> on a query of one text column, given the rows the query
  selects: the first row's value, \<open>sql.ErrNoRows\<close> when there is none, the driver's
  error when the statement fails. The scanned variable keeps its zero value on an error.
\<close>

fun QueryRow_Scan :: "string list option \<Rightarrow> string \<times> error option" where
  "QueryRow_Scan None = ([], Some (sqlite3_Error ''no such table''))"
| "QueryRow_Scan (Some []) = ([], Some ErrNoRows)"
| "QueryRow_Scan (Some (v # vs)) = (v, None)"

definition validateAuthorization :: "db \<Rightarrow> string \<Rightarrow> bool" where
  "validateAuthorization d token =
     (case QueryRow_Scan
             (map_option (\<lambda>rows. map key (filter (\<lambda>r. key r = token) rows)) (authorization d)) of
        (dbToken, Some err) \<Rightarrow> False
      | (dbToken, None) \<Rightarrow> token = dbToken)"

text \<open>
  \<open>insert into links\<close>: \<open>short_url\<close> is the primary key, so a second row with the same
  \<open>short_url\<close> is refused.
\<close>

definition insert_links :: "db \<Rightarrow> link_row \<Rightarrow> db \<times> error option" where
  "insert_links d row =
     (case links d of
        None \<Rightarrow> (d, Some (sqlite3_Error ''no such table: links''))
      | Some rows \<Rightarrow>
          if short_url row \<in> set (map short_url rows)
            then (d, Some (sqlite3_Error ''UNIQUE constraint failed: links.short_url''))
          else (d\<lparr>links := Some (rows @ [row])\<rparr>, None))"

text \<open>
  \<open>insert into authorization\<close> with a NULL \<open>id\<close>: SQLite gives the row the next rowid,
  one more than the largest in the table.
\<close>

definition insert_authorization :: "db \<Rightarrow> string \<Rightarrow> nat \<Rightarrow> db \<times> error option" where
  "insert_authorization d k now =
     (case authorization d of
        None \<Rightarrow> (d, Some (sqlite3_Error ''no such table: authorization''))
      | Some rows \<Rightarrow>
          (d\<lparr>authorization :=
                Some (rows @ [\<lparr>auth_id = (if rows = [] then 1
                                            else Max (set (map auth_id rows)) + 1),
                               key = k, auth_date_created = now\<rparr>])\<rparr>, None))"

text \<open>
  \<open>mkShortURL\<close> reads the environment variable \<open>BASE_URL\<close> (the argument \<open>base\<close>).
  \<open>saveShortUrl\<close> draws a key from \<open>shortuuid.New()\<close> and reads the clock: both are
  arguments (\<open>uuid\<close>, \<open>now\<close>).
\<close>

definition mkShortURL :: "string \<Rightarrow> string \<Rightarrow> shortURL" where
  "mkShortURL base path = \<lparr>Value = base @ ''/'' @ path\<rparr>"

definition saveShortUrl ::
  "string \<Rightarrow> string \<Rightarrow> nat \<Rightarrow> db \<Rightarrow> string \<Rightarrow> db \<times> shortURL \<times> error option" where
  "saveShortUrl base uuid now d originalUrl =
     (case insert_links d \<lparr>short_url = uuid, full_url = originalUrl, date_created = now\<rparr> of
        (d', err) \<Rightarrow> (d', mkShortURL base uuid, err))"

text \<open>
  \<open>getFullUrl\<close> reads \<open>pathWithLeadingSlash.Path\<close> before it looks at \<open>err\<close>: when
  \<open>ParseRequestURI\<close> fails the pointer is nil and the read panics.
\<close>

definition getFullUrl :: "db \<Rightarrow> shortURL \<Rightarrow> (string \<times> error option) outcome" where
  "getFullUrl d shortUrl =
     (case ParseRequestURI (Value shortUrl) of
        (None, err) \<Rightarrow> Panic ''invalid memory address or nil pointer dereference''
      | (Some pathWithLeadingSlash, err) \<Rightarrow>
          if err \<noteq> None then Return ([], err)
          else Return (QueryRow_Scan
                 (map_option
                    (\<lambda>rows. map full_url
                       (filter (\<lambda>r. short_url r = ReplaceAll (Path pathWithLeadingSlash) ''/'' [])
                          rows))
                    (links d))))"

definition generateDefaultAuthorizationToken ::
  "string \<Rightarrow> nat \<Rightarrow> db \<Rightarrow> db \<times> string \<times> error option" where
  "generateDefaultAuthorizationToken uuid now d =
     (case QueryRow_Scan (map_option (map key) (authorization d)) of
        (existingKey, None) \<Rightarrow> (d, [], None)
      | (existingKey, Some err) \<Rightarrow>
          (case insert_authorization d uuid now of
             (d', err') \<Rightarrow> (d', uuid, err')))"

section \<open>Packages path and net/http: \<open>http.Redirect\<close>\<close>

text \<open>
  A response is what a handler makes package net/http write: \<open>http.Error\<close> with a body
  and a status; the JSON encoding of a \<open>newURLResponse\<close> (its fields in order, with
  status 200); or a redirect, with the value of its \<open>Location\<close> header and its status.
  The HTML body of a redirect and the log lines are left out.
\<close>

datatype response =
  http_Error string nat
  | json_Encode "(string \<times> string) list"
  | http_Redirect string nat

text \<open>
  \<open>path.Clean\<close>. The loop reads the rest of the path and writes to \<open>out\<close>; \<open>dotdot\<close> is
  the length of the part of \<open>out\<close> that a \<open>..\<close> element must not remove. \<open>backtrack\<close> is
  the inner loop of the \<open>..\<close> case: from the last byte written, back to the last slash.
\<close>

fun backtrack :: "string \<Rightarrow> nat \<Rightarrow> nat \<Rightarrow> nat" where
  "backtrack out dotdot 0 = 0"
| "backtrack out dotdot (Suc w) =
     (if Suc w > dotdot \<and> out ! Suc w \<noteq> CHR ''/'' then backtrack out dotdot w else Suc w)"

function Clean_loop :: "bool \<Rightarrow> string \<Rightarrow> nat \<Rightarrow> string \<Rightarrow> string" where
  "Clean_loop rooted out dotdot [] = out"
| "Clean_loop rooted out dotdot (c # cs) =
     (if c = CHR ''/'' then Clean_loop rooted out dotdot cs
      else if c = CHR ''.'' \<and> (cs = [] \<or> hd cs = CHR ''/'') then Clean_loop rooted out dotdot cs
      else if c = CHR ''.'' \<and> cs \<noteq> [] \<and> hd cs = CHR ''.''
              \<and> (tl cs = [] \<or> hd (tl cs) = CHR ''/'') then
        (if length out > dotdot
           then Clean_loop rooted (take (backtrack out dotdot (length out - 1)) out) dotdot (tl cs)
         else if \<not> rooted
           then Clean_loop rooted ((if length out > 0 then out @ ''/'' else out) @ ''..'')
                  (length ((if length out > 0 then out @ ''/'' else out) @ ''..'')) (tl cs)
         else Clean_loop rooted out dotdot (tl cs))
      else Clean_loop rooted
             ((if rooted \<and> length out \<noteq> 1 \<or> \<not> rooted \<and> length out \<noteq> 0
                 then out @ ''/'' else out)
              @ c # takeWhile (\<lambda>x. x \<noteq> CHR ''/'') cs)
             dotdot (dropWhile (\<lambda>x. x \<noteq> CHR ''/'') cs))"
  by pat_completeness auto
termination
  by (relation "measure (\<lambda>(rooted, out, dotdot, rest). length rest)")
     (auto simp: length_dropWhile_le less_Suc_eq_le)

definition path_Clean :: "string \<Rightarrow> string" where
  "path_Clean path =
     (if path = [] then ''.''
      else if hd path = CHR ''/'' then
        (if Clean_loop True ''/'' 1 (tl path) = [] then ''.''
         else Clean_loop True ''/'' 1 (tl path))
      else
        (if Clean_loop False [] 0 path = [] then ''.''
         else Clean_loop False [] 0 path))"

text \<open>\<open>path.Split\<close>, of which \<open>http.Redirect\<close> uses the directory part.\<close>

definition path_Split :: "string \<Rightarrow> string \<times> string" where
  "path_Split path =
     (case LastIndex path ''/'' of
        None \<Rightarrow> ([], path)
      | Some i \<Rightarrow> (take (i + 1) path, drop (i + 1) path))"

definition lowerhex :: string where
  "lowerhex = ''0123456789abcdef''"

definition hexEscapeNonASCII :: "string \<Rightarrow> string" where
  "hexEscapeNonASCII s =
     concat (map (\<lambda>c. if CHR 0x80 \<le> c
                         then [CHR ''%'', lowerhex ! (of_char c div 16),
                               lowerhex ! (of_char c mod 16)]
                       else [c]) s)"

text \<open>
  \<open>http.Redirect(w, r, url, code)\<close>, given \<open>r.URL.Path\<close>. A target that parses and has
  neither scheme nor host is made absolute against the request path and cleaned; the
  \<open>Location\<close> header is the target with its bytes outside ASCII escaped.
\<close>

definition Redirect_relative :: "string \<Rightarrow> string \<Rightarrow> string" where
  "Redirect_relative oldpath url =
     (let url0 = (if url = [] \<or> hd url \<noteq> CHR ''/''
                    then fst (path_Split (if oldpath = [] then ''/'' else oldpath)) @ url
                  else url);
          url1 = (case Index url0 ''?'' of None \<Rightarrow> url0 | Some i \<Rightarrow> take i url0);
          query = (case Index url0 ''?'' of None \<Rightarrow> [] | Some i \<Rightarrow> drop i url0);
          cleaned = path_Clean url1
      in (if HasSuffix url1 ''/'' \<and> \<not> HasSuffix cleaned ''/'' then cleaned @ ''/''
          else cleaned) @ query)"

definition Redirect :: "string \<Rightarrow> string \<Rightarrow> nat \<Rightarrow> response" where
  "Redirect oldpath url code =
     (case Parse url of
        (Some u, None) \<Rightarrow>
          if Scheme u = [] \<and> Host u = []
            then http_Redirect (hexEscapeNonASCII (Redirect_relative oldpath url)) code
          else http_Redirect (hexEscapeNonASCII url) code
      | _ \<Rightarrow> http_Redirect (hexEscapeNonASCII url) code)"

section \<open>The HTTP handlers\<close>

text \<open>
  What a handler reads of a request: the method, \<open>r.Header.Get("Authorization")\<close>,
  \<open>r.URL.Path\<close> and \<open>r.URL.Query().Get("url")\<close>. A handler that panics answers nothing.
\<close>

record request =
  Method :: string
  Header_Authorization :: string
  URL_Path :: string
  Query_url :: string

abbreviation StatusTemporaryRedirect :: nat where "StatusTemporaryRedirect \<equiv> 307"
abbreviation StatusBadRequest :: nat where "StatusBadRequest \<equiv> 400"
abbreviation StatusUnauthorized :: nat where "StatusUnauthorized \<equiv> 401"
abbreviation StatusMethodNotAllowed :: nat where "StatusMethodNotAllowed \<equiv> 405"
abbreviation StatusInternalServerError :: nat where "StatusInternalServerError \<equiv> 500"

abbreviation MethodGet :: string where "MethodGet \<equiv> ''GET''"
abbreviation MethodPost :: string where "MethodPost \<equiv> ''POST''"

text \<open>\<open>createLinkHandler\<close> of \<open>main.go\<close>: POST and GET create a link.\<close>

definition createLinkHandler ::
  "string \<Rightarrow> string \<Rightarrow> nat \<Rightarrow> db \<Rightarrow> request \<Rightarrow> (db \<times> response) outcome" where
  "createLinkHandler base uuid now d r =
     (if length (Header_Authorization r) < 1 \<or> \<not> Contains (Header_Authorization r) ''Bearer ''
        then Return (d, http_Error ''Unauthorized'' StatusUnauthorized)
      else
        (case Split (Header_Authorization r) ''Bearer '' of
           s0 # token # ss \<Rightarrow>
             if \<not> validateAuthorization d token
               then Return (d, http_Error ''Unauthorized'' StatusUnauthorized)
             else if Method r = MethodPost \<or> Method r = MethodGet then
               (case ParseRequestURI (Query_url r) of
                  (u, Some err) \<Rightarrow> Return (d, http_Error ''Malformed URL'' StatusBadRequest)
                | (None, None) \<Rightarrow> Panic ''invalid memory address or nil pointer dereference''
                | (Some u, None) \<Rightarrow>
                    (case saveShortUrl base uuid now d (String u) of
                       (d', short, Some err) \<Rightarrow>
                         Return (d', http_Error ''Failed to create short url''
                                       StatusInternalServerError)
                     | (d', short, None) \<Rightarrow>
                         Return (d', json_Encode [(''url'', Value short),
                                                  (''shorturl'', Value short)])))
             else Return (d, http_Error ''Method not supported'' StatusMethodNotAllowed)
         | _ \<Rightarrow> Panic ''index out of range [1]''))"

text \<open>\<open>createLinkHandler\<close> of the base variant: POST only, and one field in the answer.\<close>

definition createLinkHandler_base ::
  "string \<Rightarrow> string \<Rightarrow> nat \<Rightarrow> db \<Rightarrow> request \<Rightarrow> (db \<times> response) outcome" where
  "createLinkHandler_base base uuid now d r =
     (if length (Header_Authorization r) < 1 \<or> \<not> Contains (Header_Authorization r) ''Bearer ''
        then Return (d, http_Error ''Unauthorized'' StatusUnauthorized)
      else
        (case Split (Header_Authorization r) ''Bearer '' of
           s0 # token # ss \<Rightarrow>
             if \<not> validateAuthorization d token
               then Return (d, http_Error ''Unauthorized'' StatusUnauthorized)
             else if Method r = MethodPost then
               (case ParseRequestURI (Query_url r) of
                  (u, Some err) \<Rightarrow> Return (d, http_Error ''Malformed URL'' StatusBadRequest)
                | (None, None) \<Rightarrow> Panic ''invalid memory address or nil pointer dereference''
                | (Some u, None) \<Rightarrow>
                    (case saveShortUrl base uuid now d (String u) of
                       (d', short, Some err) \<Rightarrow>
                         Return (d', http_Error ''Failed to create short url''
                                       StatusInternalServerError)
                     | (d', short, None) \<Rightarrow>
                         Return (d', json_Encode [(''url'', Value short)])))
             else Return (d, http_Error ''Method not supported'' StatusMethodNotAllowed)
         | _ \<Rightarrow> Panic ''index out of range [1]''))"

text \<open>\<open>expandLinkHandler\<close>, the same in both variants; it leaves the store as it is.\<close>

definition expandLinkHandler :: "db \<Rightarrow> request \<Rightarrow> response outcome" where
  "expandLinkHandler d r =
     (if Method r = MethodGet then
        (case getFullUrl d \<lparr>Value = URL_Path r\<rparr> of
           Panic msg \<Rightarrow> Panic msg
         | Return (fullUrl, Some err) \<Rightarrow>
             Return (http_Error ''Failed to get full url'' StatusInternalServerError)
         | Return (fullUrl, None) \<Rightarrow>
             Return (Redirect (URL_Path r) fullUrl StatusTemporaryRedirect))
      else Return (http_Error ''Method not supported'' StatusMethodNotAllowed))"

text \<open>
  Every start of the process runs \<open>generateDefaultAuthorizationToken\<close> once, with a new
  UUID and the time of the start.
\<close>

fun repeated_startups :: "(string \<times> nat) list \<Rightarrow> db \<Rightarrow> db" where
  "repeated_startups [] d = d"
| "repeated_startups ((uuid, now) # runs) d =
     repeated_startups runs (fst (generateDefaultAuthorizationToken uuid now d))"

text \<open>
  What the service does to the store over time: requests to the create route (of either
  variant, with the \<open>BASE_URL\<close>, key and time of the call), requests to the expand route,
  and starts of the process. A handler that panics has not written to the store.
\<close>

datatype event =
  create_main string string nat request
  | create_base string string nat request
  | expand request
  | startup string nat

fun after_event :: "db \<Rightarrow> event \<Rightarrow> db" where
  "after_event d (create_main base uuid now r) =
     (case createLinkHandler base uuid now d r of
        Return (d', resp) \<Rightarrow> d'
      | Panic msg \<Rightarrow> d)"
| "after_event d (create_base base uuid now r) =
     (case createLinkHandler_base base uuid now d r of
        Return (d', resp) \<Rightarrow> d'
      | Panic msg \<Rightarrow> d)"
| "after_event d (expand r) = d"
| "after_event d (startup uuid now) = fst (generateDefaultAuthorizationToken uuid now d)"

definition store_after :: "db \<Rightarrow> event list \<Rightarrow> db" where
  "store_after d events = foldl after_event d events"

text \<open>
  The alphabet of package shortuuid, from which \<open>shortuuid.New()\<close> draws the bytes of
  a key.
\<close>

definition DefaultAlphabet :: string where
  "DefaultAlphabet = ''23456789ABCDEFGHJKLMNPQRSTUVWXYZabcdefghijkmnopqrstuvwxyz''"

section \<open>Example stores\<close>

text \<open>
  A store with the single authorization token \<open>tok\<close> and no links yet; the same with
  the link \<open>abc\<close>; one whose token is \<open>a\<close>; one with the same token in two rows (the
  column \<open>key\<close> is not unique); and one with no token yet.
\<close>

definition tok_db :: db where
  "tok_db = \<lparr>authorization = Some [\<lparr>auth_id = 1, key = ''tok'', auth_date_created = 0\<rparr>],
             links = Some []\<rparr>"

definition abc_db :: db where
  "abc_db = \<lparr>authorization = Some [\<lparr>auth_id = 1, key = ''tok'', auth_date_created = 0\<rparr>],
             links = Some [\<lparr>short_url = ''abc'', full_url = ''https://example.com'',
                            date_created = 5\<rparr>]\<rparr>"

definition bearer_a_db :: db where
  "bearer_a_db = \<lparr>authorization = Some [\<lparr>auth_id = 1, key = ''a'', auth_date_created = 0\<rparr>],
                  links = Some []\<rparr>"

definition dup_db :: db where
  "dup_db = \<lparr>authorization = Some [\<lparr>auth_id = 1, key = ''tok'', auth_date_created = 0\<rparr>,
                                   \<lparr>auth_id = 2, key = ''tok'', auth_date_created = 3\<rparr>],
             links = Some []\<rparr>"

definition fresh_db :: db where
  "fresh_db = \<lparr>authorization = Some [], links = Some []\<rparr>"

section \<open>Predicates on URLs and stores used in the statements\<close>

text \<open>
  A scheme as \<open>getScheme\<close> accepts it: a letter, then letters, digits, \<open>+\<close>, \<open>-\<close> and \<open>.\<close>.
\<close>

definition valid_scheme :: "string \<Rightarrow> bool" where
  "valid_scheme s =
     (s \<noteq> [] \<and> isAlpha (hd s)
      \<and> list_all (\<lambda>c. isAlpha c \<or> isDigit c \<or> c \<in> set ''+-.'') s)"

text \<open>What \<open>ToLower\<close> does to one byte.\<close>

definition lower :: "char \<Rightarrow> char" where
  "lower c = (case map_of (zip ''ABCDEFGHIJKLMNOPQRSTUVWXYZ'' ''abcdefghijklmnopqrstuvwxyz'') c of
                Some l \<Rightarrow> l | None \<Rightarrow> c)"

text \<open>
  The links table exists and \<open>row\<close> is the one row stored under its key: a lookup of
  the key scans this row.
\<close>

definition holds_link :: "db \<Rightarrow> link_row \<Rightarrow> bool" where
  "holds_link d row =
     (case links d of
        None \<Rightarrow> False
      | Some rows \<Rightarrow> filter (\<lambda>r. short_url r = short_url row) rows = [row])"

text \<open>
  Plain URLs, \<open>scheme://host[:port][/path][?query]\<close>: a host of letters, digits, \<open>-\<close> and
  \<open>.\<close>, a path of bytes that \<open>escape\<close> leaves alone in a path, and a query of printable
  ASCII bytes. \<open>plain_URL\<close> is the \<open>URL\<close> that \<open>parse\<close> builds from one.
\<close>

definition host_byte :: "char \<Rightarrow> bool" where
  "host_byte c = (isAlpha c \<or> isDigit c \<or> c \<in> set ''-.'')"

definition plain_host :: "string \<Rightarrow> bool" where
  "plain_host h = (h \<noteq> [] \<and> list_all host_byte h)"

definition plain_path :: "string \<Rightarrow> bool" where
  "plain_path p =
     ((p = [] \<or> hd p = CHR ''/'') \<and> list_all (\<lambda>c. \<not> shouldEscape c encodePath) p)"

definition plain_query :: "string \<Rightarrow> bool" where
  "plain_query q =
     (case q of
        [] \<Rightarrow> True
      | c # qs \<Rightarrow>
          c = CHR ''?'' \<and> list_all (\<lambda>x. \<not> (x < CHR 0x20 \<or> x = CHR 0x7F) \<and> x < CHR 0x80) qs)"

definition plain_URL :: "string \<Rightarrow> string \<Rightarrow> string \<Rightarrow> string \<Rightarrow> URL" where
  "plain_URL s a p q =
     emptyURL\<lparr>Scheme := s, ForceQuery := (q = ''?''), RawQuery := tl q\<rparr>
       \<lparr>User := None, Host := a, Path := p, RawPath := []\<rparr>"

text \<open>
  A create request for \<open>https://example.com/docs?page=2\<close>, and what happens to the store
  afterwards: an expansion of an unknown key, the creation of another link, and a
  restart of the process.
\<close>

definition docs_request :: request where
  "docs_request = \<lparr>Method = MethodPost, Header_Authorization = ''Bearer tok'', URL_Path = ''/c'',
                    Query_url = ''https://example.com/docs?page=2''\<rparr>"

definition later_events :: "event list" where
  "later_events =
     [expand \<lparr>Method = MethodGet, Header_Authorization = [], URL_Path = ''/nope'',
              Query_url = []\<rparr>,
      create_main ''https://short.example'' ''Zq3k9XbTnPmLw2RvJh7CdE'' 9
        \<lparr>Method = MethodGet, Header_Authorization = ''Bearer tok'', URL_Path = ''/c'',
         Query_url = ''https://example.org/''\<rparr>,
      startup ''0b0c5a4e-7c0a-4d1e-9f43-2a6a1c1f0d11'' 11]"

section \<open>Splitting the Authorization header\<close>

lemma Split_not_Nil: "sep \<noteq> [] \<Longrightarrow> Split s sep \<noteq> []"
  by (subst Split.simps) (simp split: option.splits)

lemma Split_Index:
  "sep \<noteq> [] \<Longrightarrow> Index s sep = Some m \<Longrightarrow>
   Split s sep = take m s # Split (drop (m + length sep) s) sep"
  by (subst Split.simps) simp

lemma Split_second:
  assumes "sep \<noteq> []" and "Index s sep = Some m"
  shows "\<exists>ss. Split s sep =
           take m s
           # (case Index (drop (m + length sep) s) sep of
                None \<Rightarrow> drop (m + length sep) s
              | Some j \<Rightarrow> take j (drop (m + length sep) s))
           # ss"
proof (cases "Index (drop (m + length sep) s) sep")
  case None
  then have "Split (drop (m + length sep) s) sep = [drop (m + length sep) s]"
    using assms(1) by (subst Split.simps) simp
  with None assms show ?thesis by (simp add: Split_Index)
next
  case (Some j)
  with assms(1) have "Split (drop (m + length sep) s) sep =
      take j (drop (m + length sep) s)
      # Split (drop (j + length sep) (drop (m + length sep) s)) sep"
    by (rule Split_Index)
  with Some assms show ?thesis by (simp add: Split_Index)
qed

lemma Contains_Split:
  assumes "sep \<noteq> []" and "Contains s sep"
  shows "\<exists>s0 token ss. Split s sep = s0 # token # ss"
proof -
  from assms(2) obtain m where "Index s sep = Some m" by (auto simp: Contains_def)
  from Split_second [OF assms(1) this] show ?thesis by blast
qed

section \<open>The authorization guard of the create handler\<close>

text \<open>
  The handler answers Unauthorized, and leaves the store alone, when the header is empty,
  has no \<open>Bearer \<close> in it, or the second piece of the split is no stored token; otherwise
  it goes on to the method switch.
\<close>

lemma createLinkHandler_unauthorized:
  assumes "Header_Authorization r = [] \<or> \<not> Contains (Header_Authorization r) ''Bearer ''
           \<or> \<not> validateAuthorization d (Split (Header_Authorization r) ''Bearer '' ! 1)"
  shows "createLinkHandler base uuid now d r
         = Return (d, http_Error ''Unauthorized'' StatusUnauthorized)"
proof (cases "Header_Authorization r = [] \<or> \<not> Contains (Header_Authorization r) ''Bearer ''")
  case True
  then show ?thesis by (auto simp: createLinkHandler_def)
next
  case False
  then obtain s0 token ss where sp: "Split (Header_Authorization r) ''Bearer '' = s0 # token # ss"
    using Contains_Split [of "''Bearer ''" "Header_Authorization r"] by auto
  with assms False have "\<not> validateAuthorization d token" by simp
  with False sp show ?thesis by (simp add: createLinkHandler_def)
qed

lemma createLinkHandler_authorized:
  assumes "Header_Authorization r \<noteq> []" and "Contains (Header_Authorization r) ''Bearer ''"
    and "validateAuthorization d (Split (Header_Authorization r) ''Bearer '' ! 1)"
  shows "createLinkHandler base uuid now d r =
     (if Method r = MethodPost \<or> Method r = MethodGet then
        (case ParseRequestURI (Query_url r) of
           (u, Some err) \<Rightarrow> Return (d, http_Error ''Malformed URL'' StatusBadRequest)
         | (None, None) \<Rightarrow> Panic ''invalid memory address or nil pointer dereference''
         | (Some u, None) \<Rightarrow>
             (case saveShortUrl base uuid now d (String u) of
                (d', short, Some err) \<Rightarrow>
                  Return (d', http_Error ''Failed to create short url'' StatusInternalServerError)
              | (d', short, None) \<Rightarrow>
                  Return (d', json_Encode [(''url'', Value short), (''shorturl'', Value short)])))
      else Return (d, http_Error ''Method not supported'' StatusMethodNotAllowed))"
proof -
  obtain s0 token ss where sp: "Split (Header_Authorization r) ''Bearer '' = s0 # token # ss"
    using Contains_Split [of "''Bearer ''" "Header_Authorization r"] assms(2) by auto
  with assms(3) have "validateAuthorization d token" by simp
  with assms(1,2) sp show ?thesis by (simp add: createLinkHandler_def)
qed

lemma createLinkHandler_base_unauthorized:
  assumes "Header_Authorization r = [] \<or> \<not> Contains (Header_Authorization r) ''Bearer ''
           \<or> \<not> validateAuthorization d (Split (Header_Authorization r) ''Bearer '' ! 1)"
  shows "createLinkHandler_base base uuid now d r
         = Return (d, http_Error ''Unauthorized'' StatusUnauthorized)"
proof (cases "Header_Authorization r = [] \<or> \<not> Contains (Header_Authorization r) ''Bearer ''")
  case True
  then show ?thesis by (auto simp: createLinkHandler_base_def)
next
  case False
  then obtain s0 token ss where sp: "Split (Header_Authorization r) ''Bearer '' = s0 # token # ss"
    using Contains_Split [of "''Bearer ''" "Header_Authorization r"] by auto
  with assms False have "\<not> validateAuthorization d token" by simp
  with False sp show ?thesis by (simp add: createLinkHandler_base_def)
qed

lemma createLinkHandler_base_authorized:
  assumes "Header_Authorization r \<noteq> []" and "Contains (Header_Authorization r) ''Bearer ''"
    and "validateAuthorization d (Split (Header_Authorization r) ''Bearer '' ! 1)"
  shows "createLinkHandler_base base uuid now d r =
     (if Method r = MethodPost then
        (case ParseRequestURI (Query_url r) of
           (u, Some err) \<Rightarrow> Return (d, http_Error ''Malformed URL'' StatusBadRequest)
         | (None, None) \<Rightarrow> Panic ''invalid memory address or nil pointer dereference''
         | (Some u, None) \<Rightarrow>
             (case saveShortUrl base uuid now d (String u) of
                (d', short, Some err) \<Rightarrow>
                  Return (d', http_Error ''Failed to create short url'' StatusInternalServerError)
              | (d', short, None) \<Rightarrow>
                  Return (d', json_Encode [(''url'', Value short)])))
      else Return (d, http_Error ''Method not supported'' StatusMethodNotAllowed))"
proof -
  obtain s0 token ss where sp: "Split (Header_Authorization r) ''Bearer '' = s0 # token # ss"
    using Contains_Split [of "''Bearer ''" "Header_Authorization r"] assms(2) by auto
  with assms(3) have "validateAuthorization d token" by simp
  with assms(1,2) sp show ?thesis by (simp add: createLinkHandler_base_def)
qed

lemma createLinkHandler_authorized_not_401:
  assumes "Header_Authorization r \<noteq> []" and "Contains (Header_Authorization r) ''Bearer ''"
    and "validateAuthorization d (Split (Header_Authorization r) ''Bearer '' ! 1)"
  shows "createLinkHandler base uuid now d r
         \<noteq> Return (d, http_Error ''Unauthorized'' StatusUnauthorized)"
  by (simp add: createLinkHandler_authorized [OF assms] split: prod.splits option.splits)

lemma createLinkHandler_base_authorized_not_401:
  assumes "Header_Authorization r \<noteq> []" and "Contains (Header_Authorization r) ''Bearer ''"
    and "validateAuthorization d (Split (Header_Authorization r) ''Bearer '' ! 1)"
  shows "createLinkHandler_base base uuid now d r
         \<noteq> Return (d, http_Error ''Unauthorized'' StatusUnauthorized)"
  by (simp add: createLinkHandler_base_authorized [OF assms] split: prod.splits option.splits)

section \<open>Provisioning the default token\<close>

lemma generateDefaultAuthorizationToken_empty:
  "authorization d = Some [] \<Longrightarrow>
   generateDefaultAuthorizationToken uuid now d
   = (d\<lparr>authorization := Some [\<lparr>auth_id = 1, key = uuid, auth_date_created = now\<rparr>]\<rparr>,
      uuid, None)"
  by (simp add: generateDefaultAuthorizationToken_def insert_authorization_def)

lemma generateDefaultAuthorizationToken_present:
  "authorization d = Some (row # rows) \<Longrightarrow>
   generateDefaultAuthorizationToken uuid now d = (d, [], None)"
  by (simp add: generateDefaultAuthorizationToken_def)

lemma generateDefaultAuthorizationToken_missing:
  "authorization d = None \<Longrightarrow>
   generateDefaultAuthorizationToken uuid now d
   = (d, uuid, Some (sqlite3_Error ''no such table: authorization''))"
  by (simp add: generateDefaultAuthorizationToken_def insert_authorization_def)

lemma repeated_startups_missing:
  "authorization d = None \<Longrightarrow> repeated_startups runs d = d"
  by (induction runs) (auto simp: generateDefaultAuthorizationToken_missing)

lemma repeated_startups_present:
  "authorization d = Some (row # rows) \<Longrightarrow> repeated_startups runs d = d"
  by (induction runs) (auto simp: generateDefaultAuthorizationToken_present)

lemma repeated_startups_rows:
  assumes "authorization d = Some rows"
  shows "\<exists>rows'. authorization (repeated_startups runs d) = Some rows'
           \<and> length rows' = (if rows = [] \<and> runs \<noteq> [] then 1 else length rows)"
proof (cases rows)
  case (Cons row rest)
  with assms show ?thesis by (simp add: repeated_startups_present)
next
  case Nil
  show ?thesis
  proof (cases runs)
    case Nil
    with assms show ?thesis by simp
  next
    case (Cons run runs')
    obtain uuid now where run: "run = (uuid, now)" by (cases run)
    from assms \<open>rows = []\<close> have "authorization d = Some []" by simp
    from generateDefaultAuthorizationToken_empty [OF this, of uuid now]
    have "repeated_startups runs d
          = repeated_startups runs'
              (d\<lparr>authorization := Some [\<lparr>auth_id = 1, key = uuid, auth_date_created = now\<rparr>]\<rparr>)"
      by (simp add: Cons run)
    also have "\<dots> = d\<lparr>authorization := Some [\<lparr>auth_id = 1, key = uuid, auth_date_created = now\<rparr>]\<rparr>"
      by (rule repeated_startups_present) simp
    finally show ?thesis using \<open>rows = []\<close> Cons by simp
  qed
qed

section \<open>Separators of one byte, and unescaping a path\<close>

lemma Index_single:
  "Index s [c] = (if c \<in> set s then Some (length (takeWhile (\<lambda>x. x \<noteq> c) s)) else None)"
  by (induction s) auto

lemma take_length_takeWhile: "take (length (takeWhile P s)) s = takeWhile P s"
  by (induction s) auto

lemma ReplaceAll_single:
  "ReplaceAll s [c] [] = filter (\<lambda>x. x \<noteq> c) s"
proof (induction s "[c]" "[] :: string" rule: ReplaceAll.induct)
  case (1 s)
  show ?case
  proof (cases "c \<in> set s")
    case False
    then have "filter (\<lambda>x. x \<noteq> c) s = s" by (induction s) auto
    with False show ?thesis by (subst ReplaceAll.simps) (simp add: Index_single)
  next
    case True
    let ?m = "length (takeWhile (\<lambda>x. x \<noteq> c) s)"
    from True have idx: "Index s [c] = Some ?m" by (simp add: Index_single)
    from 1 [OF _ idx] have ih: "ReplaceAll (drop (?m + 1) s) [c] []
        = filter (\<lambda>x. x \<noteq> c) (drop (?m + 1) s)" by simp
    from True have dw: "dropWhile (\<lambda>x. x \<noteq> c) s = c # drop (?m + 1) s"
      by (induction s) auto
    have ft: "filter (\<lambda>x. x \<noteq> c) (takeWhile (\<lambda>x. x \<noteq> c) s) = takeWhile (\<lambda>x. x \<noteq> c) s"
      by (induction s) auto
    have "filter (\<lambda>x. x \<noteq> c) (takeWhile (\<lambda>x. x \<noteq> c) s @ dropWhile (\<lambda>x. x \<noteq> c) s)
          = takeWhile (\<lambda>x. x \<noteq> c) s @ filter (\<lambda>x. x \<noteq> c) (drop (?m + 1) s)"
      unfolding filter_append ft dw by simp
    then have f: "filter (\<lambda>x. x \<noteq> c) s
          = takeWhile (\<lambda>x. x \<noteq> c) s @ filter (\<lambda>x. x \<noteq> c) (drop (?m + 1) s)"
      by simp
    have tk: "take ?m s = takeWhile (\<lambda>x. x \<noteq> c) s"
      by (rule take_length_takeWhile)
    show ?thesis
      by (subst ReplaceAll.simps) (use idx ih f tk in simp)
  qed
qed

lemma takeWhile_not_mem: "c \<notin> set s \<Longrightarrow> takeWhile (\<lambda>x. x \<noteq> c) s = s"
  by (induction s) auto

lemma Cut_single_fst: "fst (Cut s [c]) = takeWhile (\<lambda>x. x \<noteq> c) s"
  by (simp add: Cut_def Index_single take_length_takeWhile takeWhile_not_mem)

lemma Count_single_one_suffix:
  assumes "Count s [c] = 1" and "HasSuffix s [c]"
  shows "take (length s - 1) s = takeWhile (\<lambda>x. x \<noteq> c) s"
proof -
  let ?m = "length (takeWhile (\<lambda>x. x \<noteq> c) s)"
  from assms(2) obtain s' where s: "s = s' @ [c]" by (auto simp: HasSuffix_def suffix_def)
  then have mem: "c \<in> set s" by simp
  then have idx: "Index s [c] = Some ?m" by (simp add: Index_single)
  from assms(1) idx have "Count (drop (?m + 1) s) [c] = 0"
    by (subst (asm) Count.simps) simp
  then have "Index (drop (?m + 1) s) [c] = None"
    by (subst (asm) Count.simps) (simp split: option.splits)
  then have nomem: "c \<notin> set (drop (?m + 1) s)" by (simp add: Index_single split: if_splits)
  from mem have dw: "dropWhile (\<lambda>x. x \<noteq> c) s = c # drop (?m + 1) s"
    by (induction s) auto
  have dec: "s = takeWhile (\<lambda>x. x \<noteq> c) s @ c # drop (?m + 1) s"
    using dw takeWhile_dropWhile_id [of "\<lambda>x. x \<noteq> c" s] by simp
  have "drop (?m + 1) s = []"
  proof (rule ccontr)
    assume ne: "drop (?m + 1) s \<noteq> []"
    from dec have "last s = last (drop (?m + 1) s)" using ne
      by (metis last_appendR last_ConsR list.distinct(1))
    moreover have "last s = c" using s by simp
    ultimately have "c \<in> set (drop (?m + 1) s)" using ne last_in_set by metis
    with nomem show False by simp
  qed
  with dec have "s = takeWhile (\<lambda>x. x \<noteq> c) s @ [c]" by simp
  then have "butlast s = takeWhile (\<lambda>x. x \<noteq> c) s" by (metis butlast_snoc)
  then show ?thesis by (simp add: butlast_conv_take)
qed

lemma takeWhile_filter_commute:
  "a \<noteq> b \<Longrightarrow>
   takeWhile (\<lambda>x. x \<noteq> a) (filter (\<lambda>x. x \<noteq> b) s) = filter (\<lambda>x. x \<noteq> b) (takeWhile (\<lambda>x. x \<noteq> a) s)"
  by (induction s) auto

lemma ishex_not_slash: "ishex h \<Longrightarrow> h \<noteq> CHR ''/''"
  by (auto simp: ishex_def between_def)

lemma unescape_percent:
  assumes "unescape (CHR ''%'' # s) encodePath = Inr q"
  shows "\<exists>h1 h2 rest t. s = h1 # h2 # rest \<and> ishex h1 \<and> ishex h2
           \<and> unescape rest encodePath = Inr t
           \<and> q = char_of (unhex h1 * 16 + unhex h2) # t"
proof (cases s)
  case Nil
  with assms show ?thesis by simp
next
  case (Cons h1 s1)
  show ?thesis
  proof (cases s1)
    case Nil
    with Cons assms show ?thesis by simp
  next
    case (Cons h2 rest)
    with \<open>s = h1 # s1\<close> assms show ?thesis
      by (cases "unescape rest encodePath") (simp_all split: if_splits)
  qed
qed

lemma unescape_other:
  assumes "unescape (c # s) encodePath = Inr q" and "c \<noteq> CHR ''%''"
  shows "\<exists>t. unescape s encodePath = Inr t \<and> q = c # t"
  using assms by (cases "unescape s encodePath") (simp_all split: if_splits)

lemma unescape_path_strip:
  "unescape r encodePath = Inr q \<Longrightarrow>
   \<exists>q'. unescape (filter (\<lambda>x. x \<noteq> CHR ''/'') r) encodePath = Inr q'
        \<and> filter (\<lambda>x. x \<noteq> CHR ''/'') q' = filter (\<lambda>x. x \<noteq> CHR ''/'') q"
proof (induction r arbitrary: q rule: length_induct)
  case (1 r)
  show ?case
  proof (cases r)
    case Nil
    with 1 show ?thesis by simp
  next
    case (Cons c s)
    show ?thesis
    proof (cases "c = CHR ''%''")
      case True
      with 1(2) Cons have "unescape (CHR ''%'' # s) encodePath = Inr q" by simp
      from unescape_percent [OF this] obtain h1 h2 rest t where
        s: "s = h1 # h2 # rest" and hx: "ishex h1" "ishex h2"
        and t: "unescape rest encodePath = Inr t"
        and q: "q = char_of (unhex h1 * 16 + unhex h2) # t"
        by blast
      have "length rest < length r" using Cons s by simp
      with 1(1) t obtain t' where
        t': "unescape (filter (\<lambda>x. x \<noteq> CHR ''/'') rest) encodePath = Inr t'"
          "filter (\<lambda>x. x \<noteq> CHR ''/'') t' = filter (\<lambda>x. x \<noteq> CHR ''/'') t"
        by blast
      from hx have "h1 \<noteq> CHR ''/''" "h2 \<noteq> CHR ''/''" by (auto dest: ishex_not_slash)
      with True Cons s hx t' q show ?thesis by simp
    next
      case False
      with 1(2) Cons unescape_other [of c s q] obtain t where
        t: "unescape s encodePath = Inr t" and q: "q = c # t"
        by blast
      have "length s < length r" using Cons by simp
      with 1(1) t obtain t' where
        t': "unescape (filter (\<lambda>x. x \<noteq> CHR ''/'') s) encodePath = Inr t'"
          "filter (\<lambda>x. x \<noteq> CHR ''/'') t' = filter (\<lambda>x. x \<noteq> CHR ''/'') t"
        by blast
      with False Cons q show ?thesis by simp
    qed
  qed
qed

lemma unescape_no_percent: "CHR ''%'' \<notin> set s \<Longrightarrow> unescape s encodePath = Inr s"
  by (induction s) auto

section \<open>Parsing a request path\<close>

text \<open>
  A string that starts with a slash has no scheme and, parsed as a request URI, no
  authority: its \<open>Path\<close> is the unescaped part before the first question mark.
\<close>

lemma getScheme_slash: "getScheme (CHR ''/'' # q) = Inr ([], CHR ''/'' # q)"
  by (simp add: getScheme_def isAlpha_def isDigit_def between_def)

lemma parse_rest_slash:
  "Scheme url = [] \<Longrightarrow> parse_rest url (CHR ''/'' # r) True = setPath url (CHR ''/'' # r)"
  by (simp add: parse_rest_def parse_authority_path_def HasPrefix_def)

lemma setPath_Path: "setPath url r = Inr u \<Longrightarrow> unescape r encodePath = Inr (Path u)"
  by (auto simp: setPath_def split: sum.splits)

lemma parse_slash_path:
  assumes "parse (CHR ''/'' # q) True = Inr u"
  shows "unescape (takeWhile (\<lambda>x. x \<noteq> CHR ''?'') (CHR ''/'' # q)) encodePath = Inr (Path u)"
proof -
  let ?p = "CHR ''/'' # q"
  let ?rest = "takeWhile (\<lambda>x. x \<noteq> CHR ''?'') ?p"
  have rest: "?rest = CHR ''/'' # takeWhile (\<lambda>x. x \<noteq> CHR ''?'') q" by simp
  have "\<exists>url. Scheme url = [] \<and> parse_rest url ?rest True = Inr u"
  proof (cases "HasSuffix ?p ''?'' \<and> Count ?p ''?'' = 1")
    case True
    then have "take (length ?p - 1) ?p = ?rest"
      using Count_single_one_suffix [of ?p "CHR ''?''"] by blast
    with True assms
    have "parse_rest (emptyURL\<lparr>Scheme := ToLower [], ForceQuery := True\<rparr>) ?rest True = Inr u"
      by (simp add: parse_def getScheme_slash split: if_splits)
    moreover have "Scheme (emptyURL\<lparr>Scheme := ToLower [], ForceQuery := True\<rparr>) = []"
      by (simp add: ToLower_def)
    ultimately show ?thesis by blast
  next
    case False
    obtain path query found where cut: "Cut ?p ''?'' = (path, query, found)"
      by (cases "Cut ?p ''?''") auto
    with Cut_single_fst [of ?p "CHR ''?''"] have path: "path = ?rest" by simp
    from False assms cut
    have "parse_rest (emptyURL\<lparr>Scheme := ToLower [], RawQuery := query\<rparr>) path True = Inr u"
      by (simp add: parse_def getScheme_slash split: if_splits)
    moreover have "Scheme (emptyURL\<lparr>Scheme := ToLower [], RawQuery := query\<rparr>) = []"
      by (simp add: ToLower_def)
    ultimately show ?thesis using path by blast
  qed
  then obtain url where "Scheme url = []" "parse_rest url ?rest True = Inr u" by blast
  then have "setPath url ?rest = Inr u" unfolding rest by (simp add: parse_rest_slash)
  then show ?thesis by (rule setPath_Path)
qed

lemma parse_slash_plain:
  assumes "\<not> stringContainsCTLByte q" and "CHR ''?'' \<notin> set q" and "CHR ''%'' \<notin> set q"
  shows "\<exists>u. parse (CHR ''/'' # q) True = Inr u \<and> Path u = CHR ''/'' # q"
proof -
  let ?p = "CHR ''/'' # q"
  from assms(1) have ctl: "\<not> stringContainsCTLByte ?p"
    by (simp add: stringContainsCTLByte_def)
  from assms(2) have nq: "CHR ''?'' \<notin> set ?p" by simp
  then have suf: "\<not> HasSuffix ?p ''?''"
    by (metis HasSuffix_def suffix_def in_set_conv_decomp)
  from nq have cut: "Cut ?p ''?'' = (?p, [], False)"
    by (simp add: Cut_def Index_single)
  from assms(3) have un: "unescape ?p encodePath = Inr ?p"
    by (simp add: unescape_no_percent)
  have "parse ?p True = setPath (emptyURL\<lparr>Scheme := ToLower [], RawQuery := []\<rparr>) ?p"
    using ctl suf cut
    by (simp add: parse_def getScheme_slash parse_rest_slash ToLower_def)
  with un show ?thesis by (simp add: setPath_def)
qed

lemma ParseRequestURI_Some: "ParseRequestURI p = (Some u, err) \<Longrightarrow> parse p True = Inr u \<and> err = None"
  by (auto simp: ParseRequestURI_def split: sum.splits)

lemma ParseRequestURI_None: "ParseRequestURI p = (None, err) \<Longrightarrow> err \<noteq> None"
  by (auto simp: ParseRequestURI_def split: sum.splits)

lemma DefaultAlphabet_plain:
  assumes "set uuid \<subseteq> set DefaultAlphabet"
  shows "\<not> stringContainsCTLByte uuid" and "CHR ''?'' \<notin> set uuid"
    and "CHR ''%'' \<notin> set uuid" and "CHR ''/'' \<notin> set uuid"
proof -
  have "\<forall>c\<in>set DefaultAlphabet. \<not> (c < CHR 0x20 \<or> c = CHR 0x7F)"
    by (simp add: DefaultAlphabet_def)
  with assms show "\<not> stringContainsCTLByte uuid"
    by (auto simp: stringContainsCTLByte_def list_ex_iff)
  have "CHR ''?'' \<notin> set DefaultAlphabet" "CHR ''%'' \<notin> set DefaultAlphabet"
    "CHR ''/'' \<notin> set DefaultAlphabet"
    by (simp_all add: DefaultAlphabet_def)
  with assms show "CHR ''?'' \<notin> set uuid" "CHR ''%'' \<notin> set uuid" "CHR ''/'' \<notin> set uuid"
    by auto
qed

lemma ParseRequestURI_key_path:
  assumes "set uuid \<subseteq> set DefaultAlphabet"
  shows "\<exists>v. ParseRequestURI (''/'' @ uuid) = (Some v, None)
             \<and> ReplaceAll (Path v) ''/'' [] = uuid"
proof -
  note plain = DefaultAlphabet_plain [OF assms]
  from parse_slash_plain [OF plain(1,2,3)] obtain v where
    v: "parse (CHR ''/'' # uuid) True = Inr v" "Path v = CHR ''/'' # uuid" by blast
  from plain(4) have "filter (\<lambda>x. x \<noteq> CHR ''/'') uuid = uuid"
    by (auto simp: filter_id_conv)
  with v show ?thesis by (simp add: ParseRequestURI_def ReplaceAll_single)
qed

section \<open>Lookup and expansion\<close>

lemma getFullUrl_parsed:
  "ParseRequestURI p = (Some u, None) \<Longrightarrow>
   getFullUrl d \<lparr>Value = p\<rparr>
   = Return (QueryRow_Scan
       (map_option
          (\<lambda>rows. map full_url (filter (\<lambda>r. short_url r = ReplaceAll (Path u) ''/'' []) rows))
          (links d)))"
  by (simp add: getFullUrl_def)

lemma getFullUrl_panics:
  "fst (ParseRequestURI p) = None \<Longrightarrow>
   getFullUrl d \<lparr>Value = p\<rparr> = Panic ''invalid memory address or nil pointer dereference''"
  by (cases "ParseRequestURI p") (simp add: getFullUrl_def)

lemma getFullUrl_not_found:
  assumes "ParseRequestURI p = (Some u, None)" and "links d = Some rows"
    and "ReplaceAll (Path u) ''/'' [] \<notin> set (map short_url rows)"
  shows "getFullUrl d \<lparr>Value = p\<rparr> = Return ([], Some ErrNoRows)"
proof -
  from assms(3) have "\<forall>r\<in>set rows. short_url r \<noteq> ReplaceAll (Path u) ''/'' []"
    by force
  then have "filter (\<lambda>r. short_url r = ReplaceAll (Path u) ''/'' []) rows = []"
    by simp
  with assms(1,2) show ?thesis by (simp add: getFullUrl_parsed)
qed

lemma saveShortUrl_fresh:
  assumes "links d = Some rows" and "uuid \<notin> set (map short_url rows)"
  shows "saveShortUrl base uuid now d originalUrl
         = (d\<lparr>links := Some (rows @ [\<lparr>short_url = uuid, full_url = originalUrl,
                                        date_created = now\<rparr>])\<rparr>,
            \<lparr>Value = base @ ''/'' @ uuid\<rparr>, None)"
  using assms by (simp add: saveShortUrl_def insert_links_def mkShortURL_def)

lemma getFullUrl_after_insert:
  assumes "uuid \<notin> set (map short_url rows)"
    and "links d' = Some (rows @ [\<lparr>short_url = uuid, full_url = target, date_created = now\<rparr>])"
    and "ParseRequestURI p = (Some v, None)" and "ReplaceAll (Path v) ''/'' [] = uuid"
  shows "getFullUrl d' \<lparr>Value = p\<rparr> = Return (target, None)"
proof -
  from assms(1) have "\<forall>r\<in>set rows. short_url r \<noteq> uuid" by force
  then have "filter (\<lambda>r. short_url r = uuid) rows = []" by simp
  with assms(2,3,4) show ?thesis by (simp add: getFullUrl_parsed)
qed

lemma expandLinkHandler_lookup_error:
  "Method r = MethodGet \<Longrightarrow> getFullUrl d \<lparr>Value = URL_Path r\<rparr> = Return (v, Some err) \<Longrightarrow>
   expandLinkHandler d r
   = Return (http_Error ''Failed to get full url'' StatusInternalServerError)"
  by (simp add: expandLinkHandler_def)

lemma expandLinkHandler_lookup_found:
  "Method r = MethodGet \<Longrightarrow> getFullUrl d \<lparr>Value = URL_Path r\<rparr> = Return (v, None) \<Longrightarrow>
   expandLinkHandler d r = Return (Redirect (URL_Path r) v StatusTemporaryRedirect)"
  by (simp add: expandLinkHandler_def)

section \<open>Schemes, and what parsing and \<open>String\<close> do to them\<close>

lemma getScheme_from_valid:
  assumes "getScheme_from raw i rem = Inr (sch, rest)" and "sch \<noteq> []"
    and "raw = pre @ rem" and "length pre = i" and "i > 0 \<longrightarrow> valid_scheme pre"
  shows "\<exists>mid. rem = mid @ CHR '':'' # rest \<and> sch = pre @ mid \<and> valid_scheme sch"
  using assms
proof (induction rem arbitrary: i pre)
  case Nil
  then show ?case by simp
next
  case (Cons c cs)
  show ?case
  proof (cases "isAlpha c")
    case True
    with Cons.prems have rec: "getScheme_from raw (Suc i) cs = Inr (sch, rest)" by simp
    have v: "valid_scheme (pre @ [c])"
      using True Cons.prems(4,5) by (cases pre) (auto simp: valid_scheme_def)
    from Cons.IH [OF rec Cons.prems(2), of "pre @ [c]"] Cons.prems(3,4) v
    obtain mid where "cs = mid @ CHR '':'' # rest" "sch = (pre @ [c]) @ mid" "valid_scheme sch"
      by auto
    then show ?thesis by (intro exI [of _ "c # mid"]) simp
  next
    case False
    show ?thesis
    proof (cases "isDigit c \<or> c \<in> set ''+-.''")
      case True
      with False Cons.prems(1,2) have i: "i > 0"
        and rec: "getScheme_from raw (Suc i) cs = Inr (sch, rest)"
        by (auto split: if_splits)
      have v: "valid_scheme (pre @ [c])"
        using True i Cons.prems(4,5) by (cases pre) (auto simp: valid_scheme_def)
      from Cons.IH [OF rec Cons.prems(2), of "pre @ [c]"] Cons.prems(3,4) v
      obtain mid where "cs = mid @ CHR '':'' # rest" "sch = (pre @ [c]) @ mid" "valid_scheme sch"
        by auto
      then show ?thesis by (intro exI [of _ "c # mid"]) simp
    next
      case nd: False
      with False Cons.prems(1,2) have c: "c = CHR '':''" and i: "i > 0"
        and r: "sch = take i raw" "rest = drop (Suc i) raw"
        by (auto split: if_splits)
      from r Cons.prems(3,4) have "sch = pre" "rest = cs" by auto
      with c i Cons.prems(5) show ?thesis by (intro exI [of _ "[]"]) simp
    qed
  qed
qed

lemma getScheme_valid:
  assumes "getScheme raw = Inr (sch, rest)" and "sch \<noteq> []"
  shows "raw = sch @ CHR '':'' # rest \<and> valid_scheme sch"
  using getScheme_from_valid [of raw 0 raw sch rest "[]"] assms
  by (auto simp: getScheme_def)

lemma getScheme_from_scheme:
  assumes "raw = pre @ mid @ CHR '':'' # x" and "length pre = i"
    and "list_all (\<lambda>c. isAlpha c \<or> isDigit c \<or> c \<in> set ''+-.'') mid"
    and "i = 0 \<longrightarrow> mid \<noteq> [] \<and> isAlpha (hd mid)"
  shows "getScheme_from raw i (mid @ CHR '':'' # x) = Inr (pre @ mid, x)"
  using assms
proof (induction mid arbitrary: i pre)
  case Nil
  then show ?case by (auto simp: isAlpha_def isDigit_def between_def)
next
  case (Cons c cs)
  have rec: "getScheme_from raw (Suc i) (cs @ CHR '':'' # x) = Inr ((pre @ [c]) @ cs, x)"
    using Cons.prems by (intro Cons.IH) auto
  from Cons.prems(3) have cc: "isAlpha c \<or> isDigit c \<or> c \<in> set ''+-.''" by simp
  have nc: "c \<noteq> CHR '':''" using cc by (auto simp: isAlpha_def isDigit_def between_def)
  show ?case
  proof (cases "isAlpha c")
    case True
    with rec show ?thesis by simp
  next
    case False
    with Cons.prems(4) have "i > 0" by auto
    with False cc rec show ?thesis by auto
  qed
qed

lemma getScheme_scheme:
  "valid_scheme sch \<Longrightarrow> getScheme (sch @ CHR '':'' # x) = Inr (sch, x)"
  using getScheme_from_scheme [of "sch @ CHR '':'' # x" "[]" sch x 0]
  by (simp add: getScheme_def valid_scheme_def)

lemma ToLower_map: "ToLower s = map lower s"
  unfolding ToLower_def lower_def ..

lemma lower_alpha:
  assumes "isAlpha c"
  shows "isAlpha (lower c)"
proof (cases "map_of (zip ''ABCDEFGHIJKLMNOPQRSTUVWXYZ'' ''abcdefghijklmnopqrstuvwxyz'') c")
  case None
  with assms show ?thesis by (simp only: lower_def option.case)
next
  case (Some l)
  then have "l \<in> set ''abcdefghijklmnopqrstuvwxyz''"
    by (meson map_of_SomeD set_zip_rightD)
  moreover have "list_all isAlpha ''abcdefghijklmnopqrstuvwxyz''" by code_simp
  then have "\<forall>x\<in>set ''abcdefghijklmnopqrstuvwxyz''. isAlpha x"
    by (simp only: list_all_iff)
  ultimately have "isAlpha l" by blast
  with Some show ?thesis by (simp only: lower_def option.case)
qed

lemma lower_other:
  assumes "isDigit c \<or> c \<in> set ''+-.''"
  shows "lower c = c"
proof -
  have "list_all (\<lambda>x. \<not> (isDigit x \<or> x \<in> set ''+-.'')) ''ABCDEFGHIJKLMNOPQRSTUVWXYZ''"
    by code_simp
  with assms have nm: "c \<notin> set ''ABCDEFGHIJKLMNOPQRSTUVWXYZ''"
    unfolding list_all_iff by blast
  have len: "length ''ABCDEFGHIJKLMNOPQRSTUVWXYZ'' = length ''abcdefghijklmnopqrstuvwxyz''"
    by simp
  from map_of_zip_is_None [OF len, of c] nm
  have "map_of (zip ''ABCDEFGHIJKLMNOPQRSTUVWXYZ'' ''abcdefghijklmnopqrstuvwxyz'') c = None"
    by (rule iffD2)
  then show ?thesis by (simp only: lower_def option.case)
qed

lemma ToLower_valid: "valid_scheme sch \<Longrightarrow> valid_scheme (ToLower sch)"
proof -
  assume v: "valid_scheme sch"
  then obtain c cs where sch: "sch = c # cs" by (cases sch) (auto simp: valid_scheme_def)
  from v have all: "\<forall>x\<in>set sch. isAlpha x \<or> isDigit x \<or> x \<in> set ''+-.''"
    unfolding valid_scheme_def list_all_iff by blast
  have "\<forall>x\<in>set sch. isAlpha (lower x) \<or> isDigit (lower x) \<or> lower x \<in> set ''+-.''"
  proof
    fix x assume "x \<in> set sch"
    with all have "isAlpha x \<or> isDigit x \<or> x \<in> set ''+-.''" by blast
    then show "isAlpha (lower x) \<or> isDigit (lower x) \<or> lower x \<in> set ''+-.''"
      using lower_alpha [of x] lower_other [of x] by metis
  qed
  moreover from v sch have "isAlpha (lower c)" by (simp add: valid_scheme_def lower_alpha)
  ultimately show ?thesis
    unfolding valid_scheme_def ToLower_map list_all_iff using sch by simp
qed

lemma setPath_Scheme: "setPath url p = Inr pu \<Longrightarrow> Scheme pu = Scheme url"
  by (auto simp: setPath_def split: sum.splits)

lemma parse_authority_path_Scheme:
  "parse_authority_path url rest v = Inr pu \<Longrightarrow> Scheme pu = Scheme url"
  by (auto simp: parse_authority_path_def split: if_splits sum.splits prod.splits option.splits
      dest!: setPath_Scheme)

lemma parse_rest_Scheme: "parse_rest url rest v = Inr pu \<Longrightarrow> Scheme pu = Scheme url"
  by (auto simp: parse_rest_def split: if_splits dest!: parse_authority_path_Scheme)

lemma parse_Scheme:
  assumes "parse s v = Inr pu" and "s \<noteq> ''*''"
  shows "\<exists>sch rest. getScheme s = Inr (sch, rest) \<and> Scheme pu = ToLower sch"
proof (cases "getScheme s")
  case (Inl e)
  with assms show ?thesis by (simp add: parse_def split: if_splits)
next
  case (Inr sr)
  obtain sch rest where sr: "sr = (sch, rest)" by (cases sr)
  from assms Inr sr have "Scheme pu = ToLower sch"
    by (auto simp: parse_def split: if_splits prod.splits dest!: parse_rest_Scheme)
  with Inr sr show ?thesis by simp
qed

lemma String_scheme_prefix:
  "Scheme u \<noteq> [] \<Longrightarrow> \<exists>t. String u = Scheme u @ CHR '':'' # t"
  by (auto simp: String_def String_hier_def)

lemma valid_scheme_chars:
  assumes "valid_scheme sch" and "c \<in> set sch"
  shows "c \<noteq> CHR ''#''" and "c < CHR 0x80" and "\<not> (c < CHR 0x20 \<or> c = CHR 0x7F)"
proof -
  from assms have "isAlpha c \<or> isDigit c \<or> c \<in> set ''+-.''"
    unfolding valid_scheme_def list_all_iff by blast
  then show "c \<noteq> CHR ''#''" and "c < CHR 0x80" and "\<not> (c < CHR 0x20 \<or> c = CHR 0x7F)"
    by (auto simp: isAlpha_def isDigit_def between_def less_eq_char_def less_char_def)
qed

section \<open>The \<open>Location\<close> that \<open>http.Redirect\<close> writes\<close>

lemma Cut_hash_scheme:
  assumes "valid_scheme sch"
  shows "\<exists>t' frag found. Cut (sch @ CHR '':'' # t) ''#'' = (sch @ CHR '':'' # t', frag, found)"
proof -
  from assms have "\<forall>c\<in>set sch. c \<noteq> CHR ''#''" by (auto dest: valid_scheme_chars)
  then have "takeWhile (\<lambda>x. x \<noteq> CHR ''#'') (sch @ CHR '':'' # t)
             = sch @ CHR '':'' # takeWhile (\<lambda>x. x \<noteq> CHR ''#'') t"
    by (simp add: takeWhile_append2)
  with Cut_single_fst [of "sch @ CHR '':'' # t" "CHR ''#''"] show ?thesis
    by (cases "Cut (sch @ CHR '':'' # t) ''#''") auto
qed

lemma setFragment_Scheme: "setFragment url f = Inr pu \<Longrightarrow> Scheme pu = Scheme url"
  by (auto simp: setFragment_def split: sum.splits)

lemma Parse_scheme:
  assumes "valid_scheme sch" and "Parse (sch @ CHR '':'' # t) = (Some pu, err)"
  shows "Scheme pu \<noteq> []"
proof -
  from Cut_hash_scheme [OF assms(1), of t] obtain t' frag found where
    cut: "Cut (sch @ CHR '':'' # t) ''#'' = (sch @ CHR '':'' # t', frag, found)" by blast
  from assms(1) have ne: "sch \<noteq> []" by (simp add: valid_scheme_def)
  then have star: "sch @ CHR '':'' # t' \<noteq> ''*''" by (cases sch) auto
  from assms(2) cut obtain pu0 where p0: "parse (sch @ CHR '':'' # t') False = Inr pu0"
    and sc: "Scheme pu = Scheme pu0"
    by (auto simp: Parse_def split: sum.splits if_splits dest: setFragment_Scheme)
  from parse_Scheme [OF p0 star] getScheme_scheme [OF assms(1), of t']
  have "Scheme pu0 = ToLower sch" by simp
  with ne sc show ?thesis by (simp add: ToLower_def)
qed

lemma Redirect_scheme:
  assumes "valid_scheme sch"
  shows "Redirect oldpath (sch @ CHR '':'' # t) code
         = http_Redirect (hexEscapeNonASCII (sch @ CHR '':'' # t)) code"
proof (cases "Parse (sch @ CHR '':'' # t)")
  case (Pair pu err)
  show ?thesis
  proof (cases pu)
    case None
    with Pair show ?thesis by (simp add: Redirect_def)
  next
    case (Some u)
    with Pair Parse_scheme [OF assms, of t u err] have "Scheme u \<noteq> []" by simp
    with Pair Some show ?thesis by (cases err) (simp_all add: Redirect_def)
  qed
qed

lemma hexEscapeNonASCII_ascii:
  "list_all (\<lambda>c. c < CHR 0x80) s \<Longrightarrow> hexEscapeNonASCII s = s"
  by (induction s) (auto simp: hexEscapeNonASCII_def)

lemma parse_valid_scheme:
  assumes "parse s v = Inr u" and "Scheme u \<noteq> []"
  shows "valid_scheme (Scheme u)"
proof -
  have "s \<noteq> ''*''"
  proof
    assume "s = ''*''"
    with assms(1) have "u = emptyURL\<lparr>Path := ''*''\<rparr>"
      by (simp add: parse_def stringContainsCTLByte_def)
    with assms(2) show False by (simp add: emptyURL_def)
  qed
  from parse_Scheme [OF assms(1) this] obtain sch rest where
    g: "getScheme s = Inr (sch, rest)" and sc: "Scheme u = ToLower sch" by blast
  from sc assms(2) have "sch \<noteq> []" by (auto simp: ToLower_def)
  with getScheme_valid [OF g] have "valid_scheme sch" by simp
  with sc show ?thesis by (simp add: ToLower_valid)
qed

lemma Redirect_absolute:
  assumes "parse s v = Inr u" and "Scheme u \<noteq> []"
    and "list_all (\<lambda>c. c < CHR 0x80) (String u)"
  shows "Redirect oldpath (String u) code = http_Redirect (String u) code"
proof -
  from String_scheme_prefix [OF assms(2)] obtain t where
    t: "String u = Scheme u @ CHR '':'' # t" by blast
  from Redirect_scheme [OF parse_valid_scheme [OF assms(1,2)], of oldpath t code] t
  have "Redirect oldpath (String u) code = http_Redirect (hexEscapeNonASCII (String u)) code"
    by simp
  with assms(3) show ?thesis by (simp add: hexEscapeNonASCII_ascii)
qed

section \<open>A stored link stays in the store\<close>

lemma insert_links_holds:
  assumes "holds_link d row"
  shows "holds_link (fst (insert_links d new)) row"
proof -
  from assms obtain rows where rows: "links d = Some rows"
    and f: "filter (\<lambda>r. short_url r = short_url row) rows = [row]"
    by (auto simp: holds_link_def split: option.splits)
  show ?thesis
  proof (cases "short_url new \<in> set (map short_url rows)")
    case True
    with rows assms show ?thesis by (simp add: insert_links_def)
  next
    case False
    have "row \<in> set (filter (\<lambda>r. short_url r = short_url row) rows)" unfolding f by simp
    then have "short_url row \<in> set (map short_url rows)" by auto
    with False have "short_url new \<noteq> short_url row" by auto
    with False rows f show ?thesis by (simp add: insert_links_def holds_link_def)
  qed
qed

lemma createLinkHandler_store:
  "createLinkHandler base uuid now d r = Return (d', resp) \<Longrightarrow>
   d' = d \<or> (\<exists>new err. insert_links d new = (d', err))"
  by (auto simp: createLinkHandler_def saveShortUrl_def
      split: if_splits list.splits prod.splits option.splits)

lemma createLinkHandler_base_store:
  "createLinkHandler_base base uuid now d r = Return (d', resp) \<Longrightarrow>
   d' = d \<or> (\<exists>new err. insert_links d new = (d', err))"
  by (auto simp: createLinkHandler_base_def saveShortUrl_def
      split: if_splits list.splits prod.splits option.splits)

lemma generateDefaultAuthorizationToken_links:
  "links (fst (generateDefaultAuthorizationToken uuid now d)) = links d"
  by (auto simp: generateDefaultAuthorizationToken_def insert_authorization_def
      split: prod.splits option.splits)

lemma after_event_holds:
  assumes "holds_link d row"
  shows "holds_link (after_event d ev) row"
proof (cases ev)
  case (create_main base uuid now r)
  show ?thesis
  proof (cases "createLinkHandler base uuid now d r")
    case (Return x)
    obtain d' resp where x: "x = (d', resp)" by (cases x)
    from createLinkHandler_store [of base uuid now d r d' resp] Return x
    have "d' = d \<or> (\<exists>new err. insert_links d new = (d', err))" by simp
    with assms insert_links_holds [OF assms] have "holds_link d' row"
      by (metis fst_conv)
    with Return x create_main show ?thesis by simp
  next
    case (Panic msg)
    with assms create_main show ?thesis by simp
  qed
next
  case (create_base base uuid now r)
  show ?thesis
  proof (cases "createLinkHandler_base base uuid now d r")
    case (Return x)
    obtain d' resp where x: "x = (d', resp)" by (cases x)
    from createLinkHandler_base_store [of base uuid now d r d' resp] Return x
    have "d' = d \<or> (\<exists>new err. insert_links d new = (d', err))" by simp
    with assms insert_links_holds [OF assms] have "holds_link d' row"
      by (metis fst_conv)
    with Return x create_base show ?thesis by simp
  next
    case (Panic msg)
    with assms create_base show ?thesis by simp
  qed
next
  case (expand r)
  with assms show ?thesis by simp
next
  case (startup uuid now)
  with assms show ?thesis
    by (simp add: holds_link_def generateDefaultAuthorizationToken_links)
qed

lemma store_after_holds:
  "holds_link d row \<Longrightarrow> holds_link (store_after d events) row"
  unfolding store_after_def
  by (induction events arbitrary: d) (auto intro: after_event_holds)

lemma getFullUrl_holds:
  assumes "holds_link d row" and "ParseRequestURI p = (Some v, None)"
    and "ReplaceAll (Path v) ''/'' [] = short_url row"
  shows "getFullUrl d \<lparr>Value = p\<rparr> = Return (full_url row, None)"
  using assms by (auto simp: getFullUrl_parsed holds_link_def split: option.splits)

lemma lower_scheme_ascii:
  assumes "valid_scheme sch" and "list_all (\<lambda>c. c < CHR 0x80) U"
  shows "list_all (\<lambda>c. c < CHR 0x80) (sch @ drop n U)"
proof -
  from assms(1) have "\<forall>c\<in>set sch. c < CHR 0x80" by (auto dest: valid_scheme_chars)
  moreover from assms(2) have "\<forall>c\<in>set (drop n U). c < CHR 0x80"
    unfolding list_all_iff by (meson in_set_dropD)
  ultimately show ?thesis unfolding list_all_iff by auto
qed

lemma Redirect_examples:
  "Redirect ''/KwSysDpxcBU9FNhGkn2dCf'' ''/a/../b'' StatusTemporaryRedirect
   = http_Redirect ''/b'' StatusTemporaryRedirect"
  "Redirect ''/KwSysDpxcBU9FNhGkn2dCf'' ''*'' StatusTemporaryRedirect
   = http_Redirect ''/*'' StatusTemporaryRedirect"
  "Redirect ''/KwSysDpxcBU9FNhGkn2dCf'' (''https://example.com/?q='' @ [CHR 0xC3, CHR 0xA9])
     StatusTemporaryRedirect
   = http_Redirect ''https://example.com/?q=%c3%a9'' StatusTemporaryRedirect"
  by code_simp+

section \<open>Plain URLs are written back unchanged but for the case of the scheme\<close>

lemma path_byte_facts:
  assumes "\<not> shouldEscape c encodePath"
  shows "c \<noteq> CHR ''?''" and "c \<noteq> CHR ''%''" and "\<not> (c < CHR 0x20 \<or> c = CHR 0x7F)"
    and "c < CHR 0x80"
proof -
  from assms have "isAlpha c \<or> isDigit c \<or> c \<in> set ''-_.~'' \<or> c \<in> set ''$&+,/:;=@''"
    by (auto simp: shouldEscape_def split: if_splits)
  then show "c \<noteq> CHR ''?''" and "c \<noteq> CHR ''%''" and "\<not> (c < CHR 0x20 \<or> c = CHR 0x7F)"
    and "c < CHR 0x80"
    by (auto simp: isAlpha_def isDigit_def between_def less_eq_char_def less_char_def)
qed

lemma authority_byte_facts:
  assumes "host_byte c \<or> c = CHR '':''"
  shows "c \<noteq> CHR ''?''" and "c \<noteq> CHR ''%''" and "c \<noteq> CHR ''+''" and "c \<noteq> CHR ''/''"
    and "c \<noteq> CHR ''@''" and "c \<noteq> CHR ''[''" and "\<not> (c < CHR 0x20 \<or> c = CHR 0x7F)"
    and "c < CHR 0x80" and "\<not> shouldEscape c encodeHost"
  using assms
  by (auto simp: host_byte_def shouldEscape_def isAlpha_def isDigit_def between_def
      less_eq_char_def less_char_def)

lemma escape_id: "list_all (\<lambda>c. \<not> shouldEscape c mode) s \<Longrightarrow> escape s mode = s"
  by (induction s) (auto simp: escape_def)

lemma unescape_host_id:
  "list_all (\<lambda>c. host_byte c \<or> c = CHR '':'') s \<Longrightarrow> unescape s encodeHost = Inr s"
proof (induction s)
  case Nil
  show ?case by simp
next
  case (Cons c s)
  then have c: "host_byte c \<or> c = CHR '':''" and ih: "unescape s encodeHost = Inr s" by auto
  from authority_byte_facts(2,3,9) [OF c] ih show ?case by simp
qed

lemma LastIndex_single_None: "c \<notin> set s \<Longrightarrow> LastIndex s [c] = None"
  by (simp add: LastIndex_def Index_single)

lemma takeWhile_until: "c \<notin> set a \<Longrightarrow> takeWhile (\<lambda>x. x \<noteq> c) (a @ c # b) = a"
  by (induction a) auto

lemma LastIndex_single_last:
  assumes "c \<notin> set t"
  shows "LastIndex (s @ c # t) [c] = Some (length s)"
proof -
  from assms have "c \<notin> set (rev t)" by simp
  then have "takeWhile (\<lambda>x. x \<noteq> c) (rev t @ c # rev s) = rev t"
    by (rule takeWhile_until)
  then show ?thesis by (simp add: LastIndex_def Index_single)
qed

lemma host_byte_not_colon: "host_byte c \<Longrightarrow> c \<noteq> CHR '':''"
  by (auto simp: host_byte_def isAlpha_def isDigit_def between_def)

lemma authority_bytes:
  assumes "plain_host h" and "validOptionalPort port"
  shows "list_all (\<lambda>c. host_byte c \<or> c = CHR '':'') (h @ port)"
proof (cases port)
  case Nil
  with assms(1) show ?thesis by (auto simp: plain_host_def list_all_iff)
next
  case (Cons c ds)
  with assms(2) have "c = CHR '':''" and "list_all isDigit ds"
    by (auto simp: validOptionalPort_def)
  with assms(1) Cons show ?thesis by (auto simp: plain_host_def list_all_iff host_byte_def)
qed

lemma parseHost_plain:
  assumes "plain_host h" and "validOptionalPort port"
  shows "parseHost (h @ port) = Inr (h @ port)"
proof -
  note un = unescape_host_id [OF authority_bytes [OF assms]]
  from assms(1) obtain a h' where h: "h = a # h'" and a: "host_byte a"
    by (cases h) (auto simp: plain_host_def)
  from authority_byte_facts(6) [of a] a have br: "\<not> HasPrefix (h @ port) ''[''"
    by (simp add: h HasPrefix_def)
  from assms(1) have nc: "CHR '':'' \<notin> set h"
    by (auto simp: plain_host_def list_all_iff dest: host_byte_not_colon)
  show ?thesis
  proof (cases port)
    case Nil
    with nc have "LastIndex (h @ port) '':'' = None" by (simp add: LastIndex_single_None)
    with br un show ?thesis by (simp add: parseHost_def)
  next
    case (Cons c ds)
    with assms(2) have c: "c = CHR '':''" and ds: "list_all isDigit ds"
      by (auto simp: validOptionalPort_def)
    from ds have "CHR '':'' \<notin> set ds"
      by (auto simp: list_all_iff isDigit_def between_def)
    then have "LastIndex (h @ CHR '':'' # ds) '':'' = Some (length h)"
      by (rule LastIndex_single_last)
    with br un assms(2) Cons c show ?thesis by (simp add: parseHost_def)
  qed
qed

lemma parseAuthority_plain:
  assumes "plain_host h" and "validOptionalPort port"
  shows "parseAuthority (h @ port) = Inr (None, h @ port)"
proof -
  from authority_bytes [OF assms] have "CHR ''@'' \<notin> set (h @ port)"
    unfolding list_all_iff using authority_byte_facts(5) by blast
  then have "LastIndex (h @ port) ''@'' = None" by (rule LastIndex_single_None)
  with parseHost_plain [OF assms] show ?thesis by (simp add: parseAuthority_def)
qed

lemma setPath_plain:
  assumes "plain_path p"
  shows "setPath url p = Inr (url\<lparr>Path := p, RawPath := []\<rparr>)"
proof -
  from assms have all: "list_all (\<lambda>c. \<not> shouldEscape c encodePath) p"
    by (simp add: plain_path_def)
  then have "CHR ''%'' \<notin> set p" unfolding list_all_iff using path_byte_facts(2) by blast
  then have "unescape p encodePath = Inr p" by (rule unescape_no_percent)
  with escape_id [OF all] show ?thesis by (simp add: setPath_def)
qed

lemma authority_split:
  assumes "plain_host h" and "validOptionalPort port" and "plain_path p"
  shows "(case Index (h @ port @ p) ''/'' of
            None \<Rightarrow> (h @ port @ p, [])
          | Some i \<Rightarrow> (take i (h @ port @ p), drop i (h @ port @ p)))
         = (h @ port, p)"
proof -
  from authority_bytes [OF assms(1,2)] have ns: "CHR ''/'' \<notin> set (h @ port)"
    unfolding list_all_iff using authority_byte_facts(4) by blast
  show ?thesis
  proof (cases p)
    case Nil
    with ns show ?thesis by (simp add: Index_single)
  next
    case (Cons c p')
    with assms(3) have c: "c = CHR ''/''" by (simp add: plain_path_def)
    from takeWhile_until [OF ns, of p']
    have "takeWhile (\<lambda>x. x \<noteq> CHR ''/'') (h @ port @ CHR ''/'' # p') = h @ port" by simp
    then have "Index (h @ port @ CHR ''/'' # p') ''/'' = Some (length (h @ port))"
      by (simp add: Index_single)
    with Cons c show ?thesis by simp
  qed
qed

lemma parse_rest_plain:
  assumes "Scheme url \<noteq> []" and "plain_host h" and "validOptionalPort port" and "plain_path p"
  shows "parse_rest url (''//'' @ h @ port @ p) True
         = Inr (url\<lparr>User := None, Host := h @ port, Path := p, RawPath := []\<rparr>)"
proof -
  have pre: "HasPrefix (''//'' @ h @ port @ p) ''/''" "HasPrefix (''//'' @ h @ port @ p) ''//''"
    by (simp_all add: HasPrefix_def)
  have dr: "drop 2 (''//'' @ h @ port @ p) = h @ port @ p" by simp
  show ?thesis
    unfolding parse_rest_def parse_authority_path_def
    using assms(1) pre
    by (simp only: dr authority_split [OF assms(2,3,4)] parseAuthority_plain [OF assms(2,3)]
        setPath_plain [OF assms(4)] simp_thms if_True if_False prod.case sum.case)
qed

lemma plain_no_question:
  assumes "plain_host h" and "validOptionalPort port" and "plain_path p"
  shows "CHR ''?'' \<notin> set (''//'' @ h @ port @ p)"
proof -
  from authority_bytes [OF assms(1,2)] have "CHR ''?'' \<notin> set (h @ port)"
    unfolding list_all_iff using authority_byte_facts(1) by blast
  moreover from assms(3) have "CHR ''?'' \<notin> set p"
    unfolding plain_path_def list_all_iff using path_byte_facts(1) by blast
  ultimately show ?thesis by simp
qed

lemma plain_no_ctl:
  assumes "valid_scheme sch" and "plain_host h" and "validOptionalPort port"
    and "plain_path p" and "plain_query q"
  shows "\<not> stringContainsCTLByte (sch @ ''://'' @ h @ port @ p @ q)"
    and "list_all (\<lambda>c. c < CHR 0x80) (sch @ ''://'' @ h @ port @ p @ q)"
proof -
  let ?ok = "\<lambda>c. \<not> (c < CHR 0x20 \<or> c = CHR 0x7F) \<and> c < CHR 0x80"
  have 1: "\<forall>c\<in>set sch. ?ok c" using valid_scheme_chars(2,3) [OF assms(1)] by blast
  have 2: "\<forall>c\<in>set ''://''. ?ok c" by simp
  have 3: "\<forall>c\<in>set (h @ port). ?ok c"
    using authority_bytes [OF assms(2,3)] authority_byte_facts(7,8)
    unfolding list_all_iff by blast
  have 4: "\<forall>c\<in>set p. ?ok c"
    using assms(4) path_byte_facts(3,4) unfolding plain_path_def list_all_iff by blast
  have 5: "\<forall>c\<in>set q. ?ok c"
    using assms(5) by (cases q) (auto simp: plain_query_def list_all_iff)
  from 1 2 3 4 5 have all: "\<forall>c\<in>set (sch @ ''://'' @ h @ port @ p @ q). ?ok c"
    by (simp only: set_append ball_Un) blast
  then show "\<not> stringContainsCTLByte (sch @ ''://'' @ h @ port @ p @ q)"
    unfolding stringContainsCTLByte_def list_ex_iff by blast
  from all show "list_all (\<lambda>c. c < CHR 0x80) (sch @ ''://'' @ h @ port @ p @ q)"
    unfolding list_all_iff by blast
qed

lemma parse_query_split:
  assumes "CHR ''?'' \<notin> set A" and "plain_query q" and "stem = A"
  shows "(if HasSuffix (A @ q) ''?'' \<and> Count (A @ q) ''?'' = 1
            then parse_rest (emptyURL\<lparr>Scheme := s, ForceQuery := True\<rparr>)
                   (take (length (A @ q) - 1) (A @ q)) v
          else (case Cut (A @ q) ''?'' of
                  (path, query, found) \<Rightarrow>
                    parse_rest (emptyURL\<lparr>Scheme := s, RawQuery := query\<rparr>) path v))
         = parse_rest (emptyURL\<lparr>Scheme := s, ForceQuery := (q = ''?''), RawQuery := tl q\<rparr>) A v"
proof (cases q)
  case Nil
  from assms(1) have "\<not> HasSuffix A ''?''"
    by (metis HasSuffix_def suffix_def in_set_conv_decomp)
  moreover from assms(1) have "Cut A ''?'' = (A, [], False)" by (simp add: Cut_def Index_single)
  ultimately show ?thesis using Nil by (simp add: emptyURL_def)
next
  case (Cons c qs)
  with assms(2) have c: "c = CHR ''?''" by (simp add: plain_query_def)
  from takeWhile_until [OF assms(1), of qs]
  have tw: "takeWhile (\<lambda>x. x \<noteq> CHR ''?'') (A @ CHR ''?'' # qs) = A" .
  then have idx: "Index (A @ CHR ''?'' # qs) ''?'' = Some (length A)"
    by (simp add: Index_single)
  show ?thesis
  proof (cases "qs = []")
    case True
    have "Count [] ''?'' = 0" by (subst Count.simps) simp
    with idx True have "Count (A @ ''?'') ''?'' = 1" by (subst Count.simps) simp
    moreover have "HasSuffix (A @ ''?'') ''?''" by (simp add: HasSuffix_def)
    ultimately show ?thesis using Cons c True by (simp add: emptyURL_def)
  next
    case False
    have "\<not> (HasSuffix (A @ CHR ''?'' # qs) ''?'' \<and> Count (A @ CHR ''?'' # qs) ''?'' = 1)"
    proof
      assume "HasSuffix (A @ CHR ''?'' # qs) ''?'' \<and> Count (A @ CHR ''?'' # qs) ''?'' = 1"
      then have "take (length (A @ CHR ''?'' # qs) - 1) (A @ CHR ''?'' # qs) = A"
        using Count_single_one_suffix [of "A @ CHR ''?'' # qs" "CHR ''?''"] tw by simp
      then have "length (take (length (A @ CHR ''?'' # qs) - 1) (A @ CHR ''?'' # qs)) = length A"
        by simp
      with False show False by simp
    qed
    moreover from idx have "Cut (A @ CHR ''?'' # qs) ''?'' = (A, qs, True)"
      by (simp add: Cut_def)
    ultimately show ?thesis using Cons c False by (auto simp: emptyURL_def)
  qed
qed

lemma parse_plain:
  assumes v: "valid_scheme sch" and h: "plain_host h" and po: "validOptionalPort port"
    and pp: "plain_path p" and pq: "plain_query q"
  shows "parse (sch @ ''://'' @ h @ port @ p @ q) True
         = Inr (plain_URL (ToLower sch) (h @ port) p q)"
proof -
  let ?A = "''//'' @ h @ port @ p"
  let ?U = "sch @ ''://'' @ h @ port @ p @ q"
  have U: "?U = sch @ CHR '':'' # (?A @ q)" by simp
  from v obtain c cs where sch: "sch = c # cs" and c: "isAlpha c"
    by (cases sch) (auto simp: valid_scheme_def)
  from c have "c \<noteq> CHR ''*''" by (auto simp: isAlpha_def between_def)
  with sch have nz: "?U \<noteq> []" "?U \<noteq> ''*''" by simp_all
  have ctl: "\<not> stringContainsCTLByte ?U" by (rule plain_no_ctl(1) [OF v h po pp pq])
  have gs: "getScheme ?U = Inr (sch, ?A @ q)" unfolding U by (rule getScheme_scheme [OF v])
  have "parse ?U True
        = (if HasSuffix (?A @ q) ''?'' \<and> Count (?A @ q) ''?'' = 1
             then parse_rest (emptyURL\<lparr>Scheme := ToLower sch, ForceQuery := True\<rparr>)
                    (take (length (?A @ q) - 1) (?A @ q)) True
           else (case Cut (?A @ q) ''?'' of
                   (path, query, found) \<Rightarrow>
                     parse_rest (emptyURL\<lparr>Scheme := ToLower sch, RawQuery := query\<rparr>)
                       path True))"
    by (simp only: parse_def ctl nz gs if_False sum.case prod.case simp_thms)
  also have "\<dots> = parse_rest
      (emptyURL\<lparr>Scheme := ToLower sch, ForceQuery := (q = ''?''), RawQuery := tl q\<rparr>) ?A True"
    by (rule parse_query_split [OF plain_no_question [OF h po pp] pq refl])
  also have "\<dots> = Inr (plain_URL (ToLower sch) (h @ port) p q)"
  proof -
    from sch have "Scheme (emptyURL\<lparr>Scheme := ToLower sch, ForceQuery := (q = ''?''),
        RawQuery := tl q\<rparr>) \<noteq> []"
      by (simp add: ToLower_map)
    from parse_rest_plain [OF this h po pp] show ?thesis by (simp only: plain_URL_def)
  qed
  finally show ?thesis .
qed

lemma String_plain:
  assumes s: "s \<noteq> []" and h: "plain_host h" and po: "validOptionalPort port"
    and pp: "plain_path p" and pq: "plain_query q"
  shows "String (plain_URL s (h @ port) p q) = s @ ''://'' @ h @ port @ p @ q"
proof -
  let ?u = "plain_URL s (h @ port) p q"
  from pp have star: "p \<noteq> ''*''" and sl: "p = [] \<or> hd p = CHR ''/''"
    by (auto simp: plain_path_def)
  from pp have "escape p encodePath = p" by (simp add: plain_path_def escape_id)
  with star have ep: "EscapedPath ?u = p"
    by (simp add: EscapedPath_def plain_URL_def emptyURL_def)
  have "list_all (\<lambda>c. \<not> shouldEscape c encodeHost) (h @ port)"
    using authority_bytes [OF h po] authority_byte_facts(9) unfolding list_all_iff by blast
  then have eh: "escape (h @ port) encodeHost = h @ port" by (rule escape_id)
  from h have hn: "h \<noteq> []" by (simp add: plain_host_def)
  have au: "String_authority ?u = ''//'' @ h @ port"
    using s hn eh by (simp add: String_authority_def plain_URL_def emptyURL_def)
  have hi: "String_hier ?u (s @ '':'' @ ''//'' @ h @ port) = s @ '':'' @ ''//'' @ h @ port @ p"
    using s sl ep by (auto simp: String_hier_def)
  from pq have qq: "(if q = ''?'' \<or> tl q \<noteq> [] then ''?'' @ tl q else []) = q"
    by (cases q) (auto simp: plain_query_def)
  have fields: "Opaque ?u = []" "Scheme ?u = s" "ForceQuery ?u = (q = ''?'')"
    "RawQuery ?u = tl q" "Fragment ?u = []"
    by (simp_all add: plain_URL_def emptyURL_def)
  have "String ?u = s @ '':'' @ ''//'' @ h @ port @ p
        @ (if q = ''?'' \<or> tl q \<noteq> [] then ''?'' @ tl q else [])"
    using s hi by (simp add: String_def fields au)
  then show ?thesis by (simp only: qq) simp
qed

lemma ParseRequestURI_plain:
  assumes "valid_scheme sch" and "plain_host h" and "validOptionalPort port"
    and "plain_path p" and "plain_query q"
  shows "ParseRequestURI (sch @ ''://'' @ h @ port @ p @ q)
         = (Some (plain_URL (ToLower sch) (h @ port) p q), None)"
  by (simp only: ParseRequestURI_def parse_plain [OF assms] sum.case)

lemma ToLower_length: "length (ToLower s) = length s"
  by (simp add: ToLower_map)

lemma plain_url_written_back:
  assumes v: "valid_scheme sch" and h: "plain_host h" and po: "validOptionalPort port"
    and pp: "plain_path p" and pq: "plain_query q"
  shows "ParseRequestURI (sch @ ''://'' @ h @ port @ p @ q)
         = (Some (plain_URL (ToLower sch) (h @ port) p q), None)"
    and "Scheme (plain_URL (ToLower sch) (h @ port) p q) = ToLower sch"
    and "ToLower sch \<noteq> []"
    and "String (plain_URL (ToLower sch) (h @ port) p q)
         = ToLower sch @ drop (length (ToLower sch)) (sch @ ''://'' @ h @ port @ p @ q)"
    and "list_all (\<lambda>c. c < CHR 0x80) (sch @ ''://'' @ h @ port @ p @ q)"
proof -
  show "ParseRequestURI (sch @ ''://'' @ h @ port @ p @ q)
        = (Some (plain_URL (ToLower sch) (h @ port) p q), None)"
    by (rule ParseRequestURI_plain [OF assms])
  show "Scheme (plain_URL (ToLower sch) (h @ port) p q) = ToLower sch"
    by (simp add: plain_URL_def)
  from v have "sch \<noteq> []" by (simp add: valid_scheme_def)
  then show ne: "ToLower sch \<noteq> []" by (simp add: ToLower_map)
  from String_plain [OF ne h po pp pq]
  show "String (plain_URL (ToLower sch) (h @ port) p q)
        = ToLower sch @ drop (length (ToLower sch)) (sch @ ''://'' @ h @ port @ p @ q)"
    by (simp add: ToLower_length)
  show "list_all (\<lambda>c. c < CHR 0x80) (sch @ ''://'' @ h @ port @ p @ q)"
    by (rule plain_no_ctl(2) [OF assms])
qed

lemma DefaultAlphabet_alnum: "c \<in> set DefaultAlphabet \<Longrightarrow> isAlpha c \<or> isDigit c"
proof -
  have "list_all (\<lambda>c. isAlpha c \<or> isDigit c) DefaultAlphabet" by code_simp
  then show "c \<in> set DefaultAlphabet \<Longrightarrow> isAlpha c \<or> isDigit c"
    by (simp only: list_all_iff)
qed

lemma plain_path_key:
  assumes "set uuid \<subseteq> set DefaultAlphabet"
  shows "plain_path (''/'' @ uuid)"
proof -
  have "\<not> shouldEscape c encodePath" if "c \<in> set uuid" for c
    using DefaultAlphabet_alnum [of c] that assms by (auto simp: shouldEscape_def)
  moreover have "\<not> shouldEscape CHR ''/'' encodePath"
    by (simp add: shouldEscape_def isAlpha_def isDigit_def between_def)
  ultimately show ?thesis by (simp add: plain_path_def list_all_iff)
qed

lemma plain_base_short_url:
  assumes "valid_scheme sch" and "plain_host h" and "validOptionalPort port"
    and "set uuid \<subseteq> set DefaultAlphabet"
  shows "ParseRequestURI ((sch @ ''://'' @ h @ port) @ ''/'' @ uuid)
         = (Some (plain_URL (ToLower sch) (h @ port) (''/'' @ uuid) []), None)"
    and "Path (plain_URL (ToLower sch) (h @ port) (''/'' @ uuid) []) = ''/'' @ uuid"
proof -
  have pq: "plain_query []" by (simp add: plain_query_def)
  from ParseRequestURI_plain [OF assms(1-3) plain_path_key [OF assms(4)] pq]
  show "ParseRequestURI ((sch @ ''://'' @ h @ port) @ ''/'' @ uuid)
        = (Some (plain_URL (ToLower sch) (h @ port) (''/'' @ uuid) []), None)"
    by simp
  show "Path (plain_URL (ToLower sch) (h @ port) (''/'' @ uuid) []) = ''/'' @ uuid"
    by (simp add: plain_URL_def)
qed

section \<open>Claims\<close>

text \<open>
  C1 (as amended). Let a create request pass the authorization guard, with method POST
  (or GET, in \<open>main.go\<close>), a key that is not yet in the links table, and a \<open>url\<close>
  parameter \<open>U\<close> that \<open>ParseRequestURI\<close> accepts as an absolute URL, that is ASCII, and
  that \<open>url.String()\<close> writes back unchanged but for its scheme, which it writes in lower
  case. Let \<open>BASE_URL\<close> be such that the path of the short URL \<open>BASE_URL/key\<close> is
  \<open>/key\<close>. Then the request is answered with that short URL, the row stored under the
  key holds \<open>U\<close> with its scheme in lower case, and in every later store, reached by
  any sequence of create requests, expand requests and restarts, the lookup of the short
  URL's path returns that target and a GET of the path is answered 307 with it as the
  \<open>Location\<close> that \<open>http.Redirect\<close> writes. The target is exactly \<open>U\<close> when the
  scheme of \<open>U\<close> is in lower case. By \<open>plain_url_written_back\<close> and
  \<open>plain_base_short_url\<close> the hypotheses on \<open>U\<close> and \<open>BASE_URL\<close> hold for every
  \<open>U\<close> of the form \<open>scheme://host[:port][/path][?query]\<close> and every \<open>BASE_URL\<close> of
  the form \<open>scheme://host[:port]\<close>.
\<close>

theorem C1_create_then_expand_redirects:
  assumes "Header_Authorization r \<noteq> []" and "Contains (Header_Authorization r) ''Bearer ''"
    and "validateAuthorization d (Split (Header_Authorization r) ''Bearer '' ! 1)"
    and "Method r = MethodPost \<or> Method r = MethodGet"
    and "ParseRequestURI (Query_url r) = (Some u, None)" and "Scheme u \<noteq> []"
    and "String u = Scheme u @ drop (length (Scheme u)) (Query_url r)"
    and "list_all (\<lambda>c. c < CHR 0x80) (Query_url r)"
    and "links d = Some rows" and "uuid \<notin> set (map short_url rows)"
    and "set uuid \<subseteq> set DefaultAlphabet"
    and "ParseRequestURI (base @ ''/'' @ uuid) = (Some us, None)" and "Path us = ''/'' @ uuid"
  shows "\<exists>d'. createLinkHandler base uuid now d r
               = Return (d', json_Encode [(''url'', base @ ''/'' @ uuid),
                                          (''shorturl'', base @ ''/'' @ uuid)])
           \<and> (Method r = MethodPost \<longrightarrow>
                createLinkHandler_base base uuid now d r
                = Return (d', json_Encode [(''url'', base @ ''/'' @ uuid)]))
           \<and> links d'
             = Some (rows @ [\<lparr>short_url = uuid,
                               full_url = Scheme u @ drop (length (Scheme u)) (Query_url r),
                               date_created = now\<rparr>])
           \<and> (\<forall>events h q.
                 getFullUrl (store_after d' events) \<lparr>Value = Path us\<rparr>
                 = Return (Scheme u @ drop (length (Scheme u)) (Query_url r), None)
                 \<and> expandLinkHandler (store_after d' events)
                     \<lparr>Method = MethodGet, Header_Authorization = h, URL_Path = Path us,
                      Query_url = q\<rparr>
                   = Return (http_Redirect (Scheme u @ drop (length (Scheme u)) (Query_url r))
                               StatusTemporaryRedirect))"
proof -
  let ?target = "Scheme u @ drop (length (Scheme u)) (Query_url r)"
  let ?row = "\<lparr>short_url = uuid, full_url = ?target, date_created = now\<rparr>"
  let ?d' = "d\<lparr>links := Some (rows @ [?row])\<rparr>"
  note save = saveShortUrl_fresh [OF assms(9,10), of base now "String u", unfolded assms(7)]
  have create: "createLinkHandler base uuid now d r
      = Return (?d', json_Encode [(''url'', base @ ''/'' @ uuid),
                                  (''shorturl'', base @ ''/'' @ uuid)])"
    using assms(4,5) save
    by (auto simp: createLinkHandler_authorized [OF assms(1,2,3)] assms(7))
  have create_base: "createLinkHandler_base base uuid now d r
      = Return (?d', json_Encode [(''url'', base @ ''/'' @ uuid)])"
    if "Method r = MethodPost"
    using that assms(5) save
    by (simp add: createLinkHandler_base_authorized [OF assms(1,2,3)] assms(7))
  have links: "links ?d' = Some (rows @ [?row])" by simp
  from assms(10) have "\<forall>x\<in>set rows. short_url x \<noteq> uuid" by force
  then have "filter (\<lambda>x. short_url x = uuid) rows = []" by simp
  then have holds: "holds_link ?d' ?row" by (simp add: holds_link_def)
  from ParseRequestURI_key_path [OF assms(11)] obtain v where
    v: "ParseRequestURI (''/'' @ uuid) = (Some v, None)" "ReplaceAll (Path v) ''/'' [] = uuid"
    by blast
  from assms(5) have parsed: "parse (Query_url r) True = Inr u"
    by (auto dest: ParseRequestURI_Some)
  have ascii: "list_all (\<lambda>c. c < CHR 0x80) (String u)"
    unfolding assms(7)
    by (rule lower_scheme_ascii [OF parse_valid_scheme [OF parsed assms(6)] assms(8)])
  have redirect: "Redirect oldpath ?target code = http_Redirect ?target code" for oldpath code
    using Redirect_absolute [OF parsed assms(6) ascii, of oldpath code] by (simp add: assms(7))
  have later: "getFullUrl (store_after ?d' events) \<lparr>Value = Path us\<rparr> = Return (?target, None)
      \<and> expandLinkHandler (store_after ?d' events)
            \<lparr>Method = MethodGet, Header_Authorization = h, URL_Path = Path us, Query_url = q\<rparr>
          = Return (http_Redirect ?target StatusTemporaryRedirect)" for events h q
  proof -
    from store_after_holds [OF holds, of events]
    have "holds_link (store_after ?d' events) ?row" .
    from getFullUrl_holds [OF this, of "''/'' @ uuid" v] v
    have lookup: "getFullUrl (store_after ?d' events) \<lparr>Value = Path us\<rparr>
                  = Return (?target, None)"
      by (simp add: assms(13))
    then show ?thesis by (simp add: expandLinkHandler_def redirect)
  qed
  from create create_base links later show ?thesis by blast
qed

theorem C1_create_then_expand_redirects_witness:
  "Contains (Header_Authorization docs_request) ''Bearer ''
   \<and> validateAuthorization tok_db (Split (Header_Authorization docs_request) ''Bearer '' ! 1)
   \<and> ParseRequestURI (Query_url docs_request)
     = (Some (emptyURL\<lparr>Scheme := ''https'', Host := ''example.com'', Path := ''/docs'',
                       RawQuery := ''page=2''\<rparr>), None)
   \<and> String (emptyURL\<lparr>Scheme := ''https'', Host := ''example.com'', Path := ''/docs'',
                       RawQuery := ''page=2''\<rparr>)
     = ''https'' @ drop (length ''https'') (Query_url docs_request)
   \<and> list_all (\<lambda>c. c < CHR 0x80) (Query_url docs_request)
   \<and> links tok_db = Some []
   \<and> set ''KwSysDpxcBU9FNhGkn2dCf'' \<subseteq> set DefaultAlphabet
   \<and> ParseRequestURI (''https://short.example'' @ ''/'' @ ''KwSysDpxcBU9FNhGkn2dCf'')
     = (Some (emptyURL\<lparr>Scheme := ''https'', Host := ''short.example'',
                       Path := ''/KwSysDpxcBU9FNhGkn2dCf''\<rparr>), None)
   \<and> (\<exists>d'. createLinkHandler ''https://short.example'' ''KwSysDpxcBU9FNhGkn2dCf'' 5 tok_db
              docs_request
            = Return (d', json_Encode
                 [(''url'', ''https://short.example/KwSysDpxcBU9FNhGkn2dCf''),
                  (''shorturl'', ''https://short.example/KwSysDpxcBU9FNhGkn2dCf'')])
          \<and> expandLinkHandler (store_after d' later_events)
               \<lparr>Method = MethodGet, Header_Authorization = [],
                URL_Path = ''/KwSysDpxcBU9FNhGkn2dCf'', Query_url = []\<rparr>
            = Return (http_Redirect ''https://example.com/docs?page=2''
                        StatusTemporaryRedirect))"
proof -
  let ?u = "emptyURL\<lparr>Scheme := ''https'', Host := ''example.com'', Path := ''/docs'',
                       RawQuery := ''page=2''\<rparr>"
  let ?us = "emptyURL\<lparr>Scheme := ''https'', Host := ''short.example'',
                       Path := ''/KwSysDpxcBU9FNhGkn2dCf''\<rparr>"
  have a1: "Header_Authorization docs_request \<noteq> []" by (simp add: docs_request_def)
  have a2: "Contains (Header_Authorization docs_request) ''Bearer ''"
    by (simp add: docs_request_def Contains_def)
  have a3: "validateAuthorization tok_db (Split (Header_Authorization docs_request) ''Bearer '' ! 1)"
    by code_simp
  have a4: "Method docs_request = MethodPost \<or> Method docs_request = MethodGet"
    by (simp add: docs_request_def)
  have a5: "ParseRequestURI (Query_url docs_request) = (Some ?u, None)" by code_simp
  have a6: "Scheme ?u \<noteq> []" by (simp add: emptyURL_def)
  have sc: "Scheme ?u = ''https''" by (simp add: emptyURL_def)
  have w: "String ?u = ''https'' @ drop (length ''https'') (Query_url docs_request)"
    by code_simp
  then have a7: "String ?u = Scheme ?u @ drop (length (Scheme ?u)) (Query_url docs_request)"
    unfolding sc .
  have a8: "list_all (\<lambda>c. c < CHR 0x80) (Query_url docs_request)" by code_simp
  have a9: "links tok_db = Some []" by (simp add: tok_db_def)
  have a10: "''KwSysDpxcBU9FNhGkn2dCf'' \<notin> set (map short_url [])" by simp
  have a11: "set ''KwSysDpxcBU9FNhGkn2dCf'' \<subseteq> set DefaultAlphabet"
    by (simp add: DefaultAlphabet_def)
  have a12: "ParseRequestURI (''https://short.example'' @ ''/'' @ ''KwSysDpxcBU9FNhGkn2dCf'')
             = (Some ?us, None)" by code_simp
  have a13: "Path ?us = ''/'' @ ''KwSysDpxcBU9FNhGkn2dCf''" by (simp add: emptyURL_def)
  have t: "Scheme ?u @ drop (length (Scheme ?u)) (Query_url docs_request)
           = ''https://example.com/docs?page=2''"
    by (simp add: emptyURL_def docs_request_def)
  from C1_create_then_expand_redirects [OF a1 a2 a3 a4 a5 a6 a7 a8 a9 a10 a11 a12 a13, of 5]
  obtain d' where
    c: "createLinkHandler ''https://short.example'' ''KwSysDpxcBU9FNhGkn2dCf'' 5 tok_db
          docs_request
        = Return (d', json_Encode
             [(''url'', ''https://short.example'' @ ''/'' @ ''KwSysDpxcBU9FNhGkn2dCf''),
              (''shorturl'', ''https://short.example'' @ ''/'' @ ''KwSysDpxcBU9FNhGkn2dCf'')])"
    and e: "\<And>events h q. expandLinkHandler (store_after d' events)
          \<lparr>Method = MethodGet, Header_Authorization = h, URL_Path = Path ?us, Query_url = q\<rparr>
        = Return (http_Redirect
            (Scheme ?u @ drop (length (Scheme ?u)) (Query_url docs_request))
            StatusTemporaryRedirect)"
    by blast
  from c have c': "createLinkHandler ''https://short.example'' ''KwSysDpxcBU9FNhGkn2dCf'' 5 tok_db
          docs_request
        = Return (d', json_Encode
             [(''url'', ''https://short.example/KwSysDpxcBU9FNhGkn2dCf''),
              (''shorturl'', ''https://short.example/KwSysDpxcBU9FNhGkn2dCf'')])"
    by simp
  from e [of later_events "[]" "[]"]
  have e': "expandLinkHandler (store_after d' later_events)
               \<lparr>Method = MethodGet, Header_Authorization = [],
                URL_Path = ''/KwSysDpxcBU9FNhGkn2dCf'', Query_url = []\<rparr>
            = Return (http_Redirect ''https://example.com/docs?page=2''
                        StatusTemporaryRedirect)"
    unfolding t a13 by simp
  from a2 a3 a5 w a8 a9 a11 a12 c' e' show ?thesis by blast
qed

text \<open>
  C1 as stated fails, in four ways. The scheme \<open>HTTPS\<close> is stored and redirected to as
  \<open>https\<close>. The URL \<open>https://example.com/a#b\<close> is accepted by \<open>ParseRequestURI\<close>,
  which takes \<open>#b\<close> as part of the path, and is stored and redirected to as
  \<open>https://example.com/a%23b\<close>. With \<open>BASE_URL = https://short.example/s\<close> the path
  of the returned short URL is \<open>/s/KwSysDpxcBU9FNhGkn2dCf\<close>, which the expand handler
  looks up as the key \<open>sKwSysDpxcBU9FNhGkn2dCf\<close> and answers with 500. A URL whose
  query ends in the two bytes C3 A9 is stored as it is, and \<open>http.Redirect\<close> writes the
  two bytes as \<open>%c3%a9\<close> in the \<open>Location\<close>.
\<close>

theorem C1_rewritten_target_counterexample:
  "createLinkHandler ''https://short.example'' ''KwSysDpxcBU9FNhGkn2dCf'' 5 tok_db
     \<lparr>Method = MethodPost, Header_Authorization = ''Bearer tok'', URL_Path = ''/c'',
      Query_url = ''HTTPS://example.com/''\<rparr>
   = Return (tok_db\<lparr>links := Some [\<lparr>short_url = ''KwSysDpxcBU9FNhGkn2dCf'',
                                       full_url = ''https://example.com/'',
                                       date_created = 5\<rparr>]\<rparr>,
             json_Encode [(''url'', ''https://short.example/KwSysDpxcBU9FNhGkn2dCf''),
                          (''shorturl'', ''https://short.example/KwSysDpxcBU9FNhGkn2dCf'')])
   \<and> expandLinkHandler
       (tok_db\<lparr>links := Some [\<lparr>short_url = ''KwSysDpxcBU9FNhGkn2dCf'',
                                  full_url = ''https://example.com/'',
                                  date_created = 5\<rparr>]\<rparr>)
       \<lparr>Method = MethodGet, Header_Authorization = [],
        URL_Path = ''/KwSysDpxcBU9FNhGkn2dCf'', Query_url = []\<rparr>
     = Return (http_Redirect ''https://example.com/'' StatusTemporaryRedirect)
   \<and> ''https://example.com/'' \<noteq> ''HTTPS://example.com/''
   \<and> createLinkHandler ''https://short.example'' ''KwSysDpxcBU9FNhGkn2dCf'' 5 tok_db
       \<lparr>Method = MethodPost, Header_Authorization = ''Bearer tok'', URL_Path = ''/c'',
        Query_url = ''https://example.com/a#b''\<rparr>
     = Return (tok_db\<lparr>links := Some [\<lparr>short_url = ''KwSysDpxcBU9FNhGkn2dCf'',
                                         full_url = ''https://example.com/a%23b'',
                                         date_created = 5\<rparr>]\<rparr>,
               json_Encode [(''url'', ''https://short.example/KwSysDpxcBU9FNhGkn2dCf''),
                            (''shorturl'', ''https://short.example/KwSysDpxcBU9FNhGkn2dCf'')])
   \<and> expandLinkHandler
       (tok_db\<lparr>links := Some [\<lparr>short_url = ''KwSysDpxcBU9FNhGkn2dCf'',
                                  full_url = ''https://example.com/a%23b'',
                                  date_created = 5\<rparr>]\<rparr>)
       \<lparr>Method = MethodGet, Header_Authorization = [],
        URL_Path = ''/KwSysDpxcBU9FNhGkn2dCf'', Query_url = []\<rparr>
     = Return (http_Redirect ''https://example.com/a%23b'' StatusTemporaryRedirect)
   \<and> ''https://example.com/a%23b'' \<noteq> ''https://example.com/a#b''
   \<and> createLinkHandler ''https://short.example/s'' ''KwSysDpxcBU9FNhGkn2dCf'' 5 tok_db
       \<lparr>Method = MethodPost, Header_Authorization = ''Bearer tok'', URL_Path = ''/c'',
        Query_url = ''https://example.com/''\<rparr>
     = Return (tok_db\<lparr>links := Some [\<lparr>short_url = ''KwSysDpxcBU9FNhGkn2dCf'',
                                         full_url = ''https://example.com/'',
                                         date_created = 5\<rparr>]\<rparr>,
               json_Encode [(''url'', ''https://short.example/s/KwSysDpxcBU9FNhGkn2dCf''),
                            (''shorturl'', ''https://short.example/s/KwSysDpxcBU9FNhGkn2dCf'')])
   \<and> map_option Path (fst (ParseRequestURI ''https://short.example/s/KwSysDpxcBU9FNhGkn2dCf''))
     = Some ''/s/KwSysDpxcBU9FNhGkn2dCf''
   \<and> expandLinkHandler
       (tok_db\<lparr>links := Some [\<lparr>short_url = ''KwSysDpxcBU9FNhGkn2dCf'',
                                  full_url = ''https://example.com/'',
                                  date_created = 5\<rparr>]\<rparr>)
       \<lparr>Method = MethodGet, Header_Authorization = [],
        URL_Path = ''/s/KwSysDpxcBU9FNhGkn2dCf'', Query_url = []\<rparr>
     = Return (http_Error ''Failed to get full url'' StatusInternalServerError)
   \<and> createLinkHandler ''https://short.example'' ''KwSysDpxcBU9FNhGkn2dCf'' 5 tok_db
       \<lparr>Method = MethodPost, Header_Authorization = ''Bearer tok'', URL_Path = ''/c'',
        Query_url = ''https://example.com/?q='' @ [CHR 0xC3, CHR 0xA9]\<rparr>
     = Return (tok_db\<lparr>links := Some [\<lparr>short_url = ''KwSysDpxcBU9FNhGkn2dCf'',
                                         full_url = ''https://example.com/?q=''
                                                      @ [CHR 0xC3, CHR 0xA9],
                                         date_created = 5\<rparr>]\<rparr>,
               json_Encode [(''url'', ''https://short.example/KwSysDpxcBU9FNhGkn2dCf''),
                            (''shorturl'', ''https://short.example/KwSysDpxcBU9FNhGkn2dCf'')])
   \<and> expandLinkHandler
       (tok_db\<lparr>links := Some [\<lparr>short_url = ''KwSysDpxcBU9FNhGkn2dCf'',
                                  full_url = ''https://example.com/?q=''
                                               @ [CHR 0xC3, CHR 0xA9],
                                  date_created = 5\<rparr>]\<rparr>)
       \<lparr>Method = MethodGet, Header_Authorization = [],
        URL_Path = ''/KwSysDpxcBU9FNhGkn2dCf'', Query_url = []\<rparr>
     = Return (http_Redirect ''https://example.com/?q=%c3%a9'' StatusTemporaryRedirect)"
  by code_simp

text \<open>
  C2 (as amended). A create request whose Authorization header is empty, does not
  contain \<open>Bearer \<close>, or whose extracted token (the second piece of the header split on
  \<open>Bearer \<close>) matches no stored token is answered 401 Unauthorized, in both variants,
  and the store is returned unchanged: no row is inserted.
\<close>

theorem C2_unauthorized_leaves_store:
  assumes "Header_Authorization r = [] \<or> \<not> Contains (Header_Authorization r) ''Bearer ''
           \<or> \<not> validateAuthorization d (Split (Header_Authorization r) ''Bearer '' ! 1)"
  shows "createLinkHandler base uuid now d r
           = Return (d, http_Error ''Unauthorized'' StatusUnauthorized)
         \<and> createLinkHandler_base base uuid now d r
           = Return (d, http_Error ''Unauthorized'' StatusUnauthorized)"
  using assms createLinkHandler_unauthorized createLinkHandler_base_unauthorized by blast

theorem C2_unauthorized_leaves_store_witness:
  "\<not> validateAuthorization tok_db (Split ''Bearer nope'' ''Bearer '' ! 1)
   \<and> createLinkHandler ''https://short.example'' ''KwSysDpxcBU9FNhGkn2dCf'' 5 tok_db
        \<lparr>Method = MethodPost, Header_Authorization = ''Bearer nope'', URL_Path = ''/c'',
         Query_url = ''https://example.com''\<rparr>
      = Return (tok_db, http_Error ''Unauthorized'' StatusUnauthorized)
   \<and> createLinkHandler_base ''https://short.example'' ''KwSysDpxcBU9FNhGkn2dCf'' 5 tok_db
        \<lparr>Method = MethodPost, Header_Authorization = ''Bearer nope'', URL_Path = ''/c'',
         Query_url = ''https://example.com''\<rparr>
      = Return (tok_db, http_Error ''Unauthorized'' StatusUnauthorized)"
proof -
  have h: "\<not> validateAuthorization tok_db (Split ''Bearer nope'' ''Bearer '' ! 1)"
    by code_simp
  show ?thesis
    using h C2_unauthorized_leaves_store
      [of "\<lparr>Method = MethodPost, Header_Authorization = ''Bearer nope'', URL_Path = ''/c'',
         Query_url = ''https://example.com''\<rparr>" tok_db
         "''https://short.example''" "''KwSysDpxcBU9FNhGkn2dCf''" 5]
    by simp
qed

text \<open>
  C2 as stated fails: the guard asks whether the header contains \<open>Bearer \<close>, not whether
  it starts with it. The header \<open>Basic Bearer tok\<close> does not start with \<open>Bearer \<close>, and the
  request is served and a row inserted.
\<close>

theorem C2_prefix_counterexample:
  "\<not> HasPrefix ''Basic Bearer tok'' ''Bearer ''
   \<and> createLinkHandler ''https://short.example'' ''KwSysDpxcBU9FNhGkn2dCf'' 5 tok_db
        \<lparr>Method = MethodPost, Header_Authorization = ''Basic Bearer tok'', URL_Path = ''/c'',
         Query_url = ''https://example.com''\<rparr>
      = Return (tok_db\<lparr>links := Some [\<lparr>short_url = ''KwSysDpxcBU9FNhGkn2dCf'',
                                          full_url = ''https://example.com'',
                                          date_created = 5\<rparr>]\<rparr>,
                json_Encode [(''url'', ''https://short.example/KwSysDpxcBU9FNhGkn2dCf''),
                             (''shorturl'', ''https://short.example/KwSysDpxcBU9FNhGkn2dCf'')])"
  by code_simp

text \<open>
  C3. The path \<open>/%zz\<close> is not well-formed: \<open>%zz\<close> is no percent escape. There
  \<open>ParseRequestURI\<close> returns an error and the nil pointer, and \<open>getFullUrl\<close>, which
  reads the \<open>Path\<close> field before it tests the error, panics instead of returning the
  error.
\<close>

theorem C3_getFullUrl_panics_on_malformed_path:
  "ParseRequestURI ''/%zz'' = (None, Some (url_Error ''parse'' ''/%zz'' (EscapeError ''%zz'')))
   \<and> getFullUrl d \<lparr>Value = ''/%zz''\<rparr>
     = Panic ''invalid memory address or nil pointer dereference''"
proof -
  have "ParseRequestURI ''/%zz'' = (None, Some (url_Error ''parse'' ''/%zz'' (EscapeError ''%zz'')))"
    by code_simp
  then show ?thesis by (simp add: getFullUrl_def)
qed

text \<open>
  C4 (as amended). The method switch comes after the authorization guard. A request whose
  method is neither POST nor GET (not POST, in the base variant) is answered
  405 MethodNotAllowed when it passes the guard and 401 Unauthorized when it does not;
  the store is unchanged either way.
\<close>

theorem C4_method_not_allowed_after_authorization:
  "(Method r \<noteq> MethodPost \<and> Method r \<noteq> MethodGet \<longrightarrow>
      createLinkHandler base uuid now d r =
        Return (d, if Header_Authorization r \<noteq> []
                      \<and> Contains (Header_Authorization r) ''Bearer ''
                      \<and> validateAuthorization d (Split (Header_Authorization r) ''Bearer '' ! 1)
                   then http_Error ''Method not supported'' StatusMethodNotAllowed
                   else http_Error ''Unauthorized'' StatusUnauthorized))
   \<and> (Method r \<noteq> MethodPost \<longrightarrow>
      createLinkHandler_base base uuid now d r =
        Return (d, if Header_Authorization r \<noteq> []
                      \<and> Contains (Header_Authorization r) ''Bearer ''
                      \<and> validateAuthorization d (Split (Header_Authorization r) ''Bearer '' ! 1)
                   then http_Error ''Method not supported'' StatusMethodNotAllowed
                   else http_Error ''Unauthorized'' StatusUnauthorized))"
proof -
  define ok where "ok \<longleftrightarrow> Header_Authorization r \<noteq> []
      \<and> Contains (Header_Authorization r) ''Bearer ''
      \<and> validateAuthorization d (Split (Header_Authorization r) ''Bearer '' ! 1)"
  have main: "createLinkHandler base uuid now d r =
        Return (d, if ok then http_Error ''Method not supported'' StatusMethodNotAllowed
                   else http_Error ''Unauthorized'' StatusUnauthorized)"
    if "Method r \<noteq> MethodPost" "Method r \<noteq> MethodGet"
  proof (cases ok)
    case True
    then show ?thesis using that by (simp add: ok_def createLinkHandler_authorized)
  next
    case False
    then have "Header_Authorization r = [] \<or> \<not> Contains (Header_Authorization r) ''Bearer ''
           \<or> \<not> validateAuthorization d (Split (Header_Authorization r) ''Bearer '' ! 1)"
      by (auto simp: ok_def)
    from createLinkHandler_unauthorized [OF this] False show ?thesis by simp
  qed
  have base: "createLinkHandler_base base uuid now d r =
        Return (d, if ok then http_Error ''Method not supported'' StatusMethodNotAllowed
                   else http_Error ''Unauthorized'' StatusUnauthorized)"
    if "Method r \<noteq> MethodPost"
  proof (cases ok)
    case True
    then show ?thesis using that by (simp add: ok_def createLinkHandler_base_authorized)
  next
    case False
    then have "Header_Authorization r = [] \<or> \<not> Contains (Header_Authorization r) ''Bearer ''
           \<or> \<not> validateAuthorization d (Split (Header_Authorization r) ''Bearer '' ! 1)"
      by (auto simp: ok_def)
    from createLinkHandler_base_unauthorized [OF this] False show ?thesis by simp
  qed
  from main base show ?thesis unfolding ok_def by blast
qed

theorem C4_method_not_allowed_after_authorization_witness:
  "''PUT'' \<noteq> MethodPost \<and> ''PUT'' \<noteq> MethodGet
   \<and> createLinkHandler ''https://short.example'' ''KwSysDpxcBU9FNhGkn2dCf'' 5 tok_db
        \<lparr>Method = ''PUT'', Header_Authorization = ''Bearer tok'', URL_Path = ''/c'',
         Query_url = ''https://example.com''\<rparr>
      = Return (tok_db, http_Error ''Method not supported'' StatusMethodNotAllowed)
   \<and> createLinkHandler_base ''https://short.example'' ''KwSysDpxcBU9FNhGkn2dCf'' 5 tok_db
        \<lparr>Method = MethodGet, Header_Authorization = ''Bearer tok'', URL_Path = ''/c'',
         Query_url = ''https://example.com''\<rparr>
      = Return (tok_db, http_Error ''Method not supported'' StatusMethodNotAllowed)"
proof -
  have c: "Contains ''Bearer tok'' ''Bearer ''" by (simp add: Contains_def)
  have v: "validateAuthorization tok_db (Split ''Bearer tok'' ''Bearer '' ! 1)" by code_simp
  show ?thesis
    using c v
      C4_method_not_allowed_after_authorization
        [of "\<lparr>Method = ''PUT'', Header_Authorization = ''Bearer tok'', URL_Path = ''/c'',
           Query_url = ''https://example.com''\<rparr>"
           "''https://short.example''" "''KwSysDpxcBU9FNhGkn2dCf''" 5 tok_db]
      C4_method_not_allowed_after_authorization
        [of "\<lparr>Method = MethodGet, Header_Authorization = ''Bearer tok'', URL_Path = ''/c'',
           Query_url = ''https://example.com''\<rparr>"
           "''https://short.example''" "''KwSysDpxcBU9FNhGkn2dCf''" 5 tok_db]
    by simp
qed

text \<open>
  C4 as stated fails: a PUT with no Authorization header is answered 401, not 405.
\<close>

theorem C4_unauthorized_put_counterexample:
  "''PUT'' \<noteq> MethodPost \<and> ''PUT'' \<noteq> MethodGet
   \<and> createLinkHandler ''https://short.example'' ''KwSysDpxcBU9FNhGkn2dCf'' 5 tok_db
        \<lparr>Method = ''PUT'', Header_Authorization = [], URL_Path = ''/c'',
         Query_url = ''https://example.com''\<rparr>
      = Return (tok_db, http_Error ''Unauthorized'' StatusUnauthorized)
   \<and> createLinkHandler_base ''https://short.example'' ''KwSysDpxcBU9FNhGkn2dCf'' 5 tok_db
        \<lparr>Method = ''PUT'', Header_Authorization = [], URL_Path = ''/c'',
         Query_url = ''https://example.com''\<rparr>
      = Return (tok_db, http_Error ''Unauthorized'' StatusUnauthorized)
   \<and> http_Error ''Unauthorized'' StatusUnauthorized
      \<noteq> http_Error ''Method not supported'' StatusMethodNotAllowed"
  by (simp add: createLinkHandler_def createLinkHandler_base_def)

text \<open>
  C5 (as amended). For a header containing \<open>Bearer \<close>, the token the handler validates is
  the piece of the header that follows the first \<open>Bearer \<close> and ends before the next
  \<open>Bearer \<close>, or at the end of the header when there is none: the handler answers
  401 Unauthorized exactly when this piece is not a valid token.
\<close>

theorem C5_token_is_piece_after_first_Bearer:
  assumes "Contains (Header_Authorization r) ''Bearer ''"
  shows "\<exists>m. Index (Header_Authorization r) ''Bearer '' = Some m
     \<and> (let after = drop (m + 7) (Header_Authorization r);
            token = (case Index after ''Bearer '' of None \<Rightarrow> after | Some j \<Rightarrow> take j after)
        in Split (Header_Authorization r) ''Bearer '' ! 1 = token
           \<and> (createLinkHandler base uuid now d r
                = Return (d, http_Error ''Unauthorized'' StatusUnauthorized))
             = (\<not> validateAuthorization d token)
           \<and> (createLinkHandler_base base uuid now d r
                = Return (d, http_Error ''Unauthorized'' StatusUnauthorized))
             = (\<not> validateAuthorization d token))"
proof -
  from assms obtain m where m: "Index (Header_Authorization r) ''Bearer '' = Some m"
    by (auto simp: Contains_def)
  let ?after = "drop (m + 7) (Header_Authorization r)"
  let ?token = "case Index ?after ''Bearer '' of None \<Rightarrow> ?after | Some j \<Rightarrow> take j ?after"
  have len: "m + length ''Bearer '' = m + 7" by simp
  from Split_second [of "''Bearer ''" "Header_Authorization r" m] m
  have sp: "Split (Header_Authorization r) ''Bearer '' ! 1 = ?token"
    unfolding len by auto
  from m have ne: "Header_Authorization r \<noteq> []" by auto
  have a: "(createLinkHandler base uuid now d r
          = Return (d, http_Error ''Unauthorized'' StatusUnauthorized))
        = (\<not> validateAuthorization d ?token)"
    using createLinkHandler_unauthorized [of r d base uuid now]
      createLinkHandler_authorized_not_401 [OF ne assms, of d base uuid now]
    unfolding sp by blast
  have b: "(createLinkHandler_base base uuid now d r
          = Return (d, http_Error ''Unauthorized'' StatusUnauthorized))
        = (\<not> validateAuthorization d ?token)"
    using createLinkHandler_base_unauthorized [of r d base uuid now]
      createLinkHandler_base_authorized_not_401 [OF ne assms, of d base uuid now]
    unfolding sp by blast
  from m sp a b show ?thesis unfolding Let_def by blast
qed

theorem C5_token_is_piece_after_first_Bearer_witness:
  "Contains (Header_Authorization
       \<lparr>Method = MethodPost, Header_Authorization = ''Bearer tok'', URL_Path = ''/c'',
        Query_url = ''https://example.com''\<rparr>) ''Bearer ''
   \<and> (\<exists>m. Index ''Bearer tok'' ''Bearer '' = Some m
        \<and> Split ''Bearer tok'' ''Bearer '' ! 1
          = (case Index (drop (m + 7) ''Bearer tok'') ''Bearer '' of
               None \<Rightarrow> drop (m + 7) ''Bearer tok''
             | Some j \<Rightarrow> take j (drop (m + 7) ''Bearer tok'')))"
proof -
  have h: "Contains (Header_Authorization
       \<lparr>Method = MethodPost, Header_Authorization = ''Bearer tok'', URL_Path = ''/c'',
        Query_url = ''https://example.com''\<rparr>) ''Bearer ''"
    by (simp add: Contains_def)
  from C5_token_is_piece_after_first_Bearer [OF h, of "''https://short.example''"
      "''KwSysDpxcBU9FNhGkn2dCf''" 5 tok_db]
  have "\<exists>m. Index ''Bearer tok'' ''Bearer '' = Some m
        \<and> Split ''Bearer tok'' ''Bearer '' ! 1
          = (case Index (drop (m + 7) ''Bearer tok'') ''Bearer '' of
               None \<Rightarrow> drop (m + 7) ''Bearer tok''
             | Some j \<Rightarrow> take j (drop (m + 7) ''Bearer tok''))"
    unfolding Let_def by auto
  with h show ?thesis by blast
qed

text \<open>
  C5 as stated fails: for \<open>Bearer aBearer b\<close> the substring after the first \<open>Bearer \<close> is
  \<open>aBearer b\<close>, which is no token of the store, but the handler validates \<open>a\<close> and serves
  the request.
\<close>

theorem C5_later_Bearer_counterexample:
  "Contains ''Bearer aBearer b'' ''Bearer ''
   \<and> Index ''Bearer aBearer b'' ''Bearer '' = Some 0
   \<and> drop (0 + length ''Bearer '') ''Bearer aBearer b'' = ''aBearer b''
   \<and> Split ''Bearer aBearer b'' ''Bearer '' ! 1 = ''a''
   \<and> \<not> validateAuthorization bearer_a_db ''aBearer b''
   \<and> createLinkHandler ''https://short.example'' ''KwSysDpxcBU9FNhGkn2dCf'' 5 bearer_a_db
        \<lparr>Method = MethodPost, Header_Authorization = ''Bearer aBearer b'', URL_Path = ''/c'',
         Query_url = ''https://example.com''\<rparr>
      = Return (bearer_a_db\<lparr>links := Some [\<lparr>short_url = ''KwSysDpxcBU9FNhGkn2dCf'',
                                               full_url = ''https://example.com'',
                                               date_created = 5\<rparr>]\<rparr>,
                json_Encode [(''url'', ''https://short.example/KwSysDpxcBU9FNhGkn2dCf''),
                             (''shorturl'', ''https://short.example/KwSysDpxcBU9FNhGkn2dCf'')])"
  by code_simp

text \<open>
  C6 (as amended). \<open>validateAuthorization\<close> is true if and only if the authorization table
  can be read and at least one of its rows has the presented token as its key; it is
  false when the lookup fails: no row matches, or the table is missing.
\<close>

theorem C6_validate_token_some_row:
  "validateAuthorization d token
   = (case authorization d of
        None \<Rightarrow> False
      | Some rows \<Rightarrow> 1 \<le> length (filter (\<lambda>r. key r = token) rows))"
proof (cases "authorization d")
  case None
  then show ?thesis by (simp add: validateAuthorization_def)
next
  case (Some rows)
  show ?thesis
  proof (cases "filter (\<lambda>r. key r = token) rows")
    case Nil
    with Some show ?thesis by (simp add: validateAuthorization_def)
  next
    case (Cons v vs)
    then have "v \<in> set (filter (\<lambda>r. key r = token) rows)" by simp
    then have "key v = token" by simp
    with Some Cons show ?thesis by (simp add: validateAuthorization_def)
  qed
qed

theorem C6_validate_token_some_row_witness:
  "validateAuthorization tok_db ''tok''
   \<and> \<not> validateAuthorization tok_db ''nope''
   \<and> \<not> validateAuthorization (tok_db\<lparr>authorization := None\<rparr>) ''tok''"
  using C6_validate_token_some_row [of tok_db "''tok''"]
    C6_validate_token_some_row [of tok_db "''nope''"]
    C6_validate_token_some_row [of "tok_db\<lparr>authorization := None\<rparr>" "''tok''"]
  by (simp add: tok_db_def)

text \<open>
  C6 as stated fails: with the token in two rows, not exactly one row equals the input,
  and \<open>validateAuthorization\<close> is true.
\<close>

theorem C6_duplicate_rows_counterexample:
  "validateAuthorization dup_db ''tok''
   \<and> (case authorization dup_db of
         None \<Rightarrow> False
       | Some rows \<Rightarrow> length (filter (\<lambda>r. key r = ''tok'') rows) = 2)"
  by (simp add: validateAuthorization_def dup_db_def)

text \<open>
  C7. With an empty authorization table, provisioning inserts exactly one row, holding the
  fresh token, and returns the token with no error. With a row already there it returns
  the empty string with no error and the store unchanged. A provisioning that follows a
  successful one is such a no-op, so any number of startups adds at most one token.
  (Without the table the insert fails, and provisioning changes nothing either.)
\<close>

theorem C7_provisioning_idempotent:
  "(authorization d = Some [] \<longrightarrow>
      generateDefaultAuthorizationToken uuid now d
      = (d\<lparr>authorization := Some [\<lparr>auth_id = 1, key = uuid, auth_date_created = now\<rparr>]\<rparr>,
         uuid, None))
   \<and> (\<forall>row rows. authorization d = Some (row # rows) \<longrightarrow>
        generateDefaultAuthorizationToken uuid now d = (d, [], None))
   \<and> (\<forall>d' token. generateDefaultAuthorizationToken uuid now d = (d', token, None) \<longrightarrow>
        generateDefaultAuthorizationToken uuid' now' d' = (d', [], None))
   \<and> (\<forall>rows. authorization d = Some rows \<longrightarrow>
        (\<exists>rows'. authorization (repeated_startups runs d) = Some rows'
           \<and> length rows' = (if rows = [] \<and> runs \<noteq> [] then 1 else length rows)))
   \<and> (authorization d = None \<longrightarrow>
        generateDefaultAuthorizationToken uuid now d
        = (d, uuid, Some (sqlite3_Error ''no such table: authorization''))
        \<and> repeated_startups runs d = d)"
proof -
  have second: "generateDefaultAuthorizationToken uuid' now' d' = (d', [], None)"
    if "generateDefaultAuthorizationToken uuid now d = (d', token, None)" for d' token
  proof (cases "authorization d")
    case None
    from generateDefaultAuthorizationToken_missing [OF this, of uuid now] that
    show ?thesis by simp
  next
    case (Some rows)
    show ?thesis
    proof (cases rows)
      case Nil
      with Some have "authorization d = Some []" by simp
      from generateDefaultAuthorizationToken_empty [OF this, of uuid now] that
      have "authorization d' = Some [\<lparr>auth_id = 1, key = uuid, auth_date_created = now\<rparr>]"
        by auto
      then show ?thesis by (rule generateDefaultAuthorizationToken_present)
    next
      case (Cons row rest)
      with Some have p: "authorization d = Some (row # rest)" by simp
      from generateDefaultAuthorizationToken_present [OF p, of uuid now] that
      have "d' = d" by simp
      with p show ?thesis by (simp add: generateDefaultAuthorizationToken_present)
    qed
  qed
  show ?thesis
    using second generateDefaultAuthorizationToken_empty
      generateDefaultAuthorizationToken_present repeated_startups_rows
      generateDefaultAuthorizationToken_missing repeated_startups_missing
    by blast
qed

theorem C7_provisioning_idempotent_witness:
  "authorization fresh_db = Some []
   \<and> generateDefaultAuthorizationToken ''0b0c5a4e-7c0a-4d1e-9f43-2a6a1c1f0d11'' 5 fresh_db
     = (fresh_db\<lparr>authorization :=
           Some [\<lparr>auth_id = 1, key = ''0b0c5a4e-7c0a-4d1e-9f43-2a6a1c1f0d11'',
                  auth_date_created = 5\<rparr>]\<rparr>,
        ''0b0c5a4e-7c0a-4d1e-9f43-2a6a1c1f0d11'', None)
   \<and> generateDefaultAuthorizationToken ''e3f1d0aa-52b7-4c58-8d0e-6f0f6a3f9b22'' 9
       (fresh_db\<lparr>authorization :=
           Some [\<lparr>auth_id = 1, key = ''0b0c5a4e-7c0a-4d1e-9f43-2a6a1c1f0d11'',
                  auth_date_created = 5\<rparr>]\<rparr>)
     = (fresh_db\<lparr>authorization :=
           Some [\<lparr>auth_id = 1, key = ''0b0c5a4e-7c0a-4d1e-9f43-2a6a1c1f0d11'',
                  auth_date_created = 5\<rparr>]\<rparr>, [], None)"
proof -
  have h: "authorization fresh_db = Some []" by (simp add: fresh_db_def)
  from C7_provisioning_idempotent
    [of fresh_db "''0b0c5a4e-7c0a-4d1e-9f43-2a6a1c1f0d11''" 5
        "''e3f1d0aa-52b7-4c58-8d0e-6f0f6a3f9b22''" 9 "[]"] h
  show ?thesis by auto
qed

text \<open>
  C8. A GET of the path \<open>/%zz\<close>: the lookup cannot succeed, and the handler panics in
  \<open>getFullUrl\<close> before it can answer 500 with \<open>Failed to get full url\<close>. (When
  \<open>getFullUrl\<close> returns, the handler answers as the claim says: see
  \<open>expandLinkHandler_lookup_error\<close> and \<open>expandLinkHandler_lookup_found\<close>.)
\<close>

theorem C8_expandLinkHandler_panics_on_malformed_path:
  "expandLinkHandler d \<lparr>Method = MethodGet, Header_Authorization = [], URL_Path = ''/%zz'',
                         Query_url = []\<rparr>
   = Panic ''invalid memory address or nil pointer dereference''"
proof -
  have "ParseRequestURI ''/%zz'' = (None, Some (url_Error ''parse'' ''/%zz'' (EscapeError ''%zz'')))"
    by code_simp
  then show ?thesis by (simp add: expandLinkHandler_def getFullUrl_def)
qed

text \<open>
  C9. A header that passes the guard (not empty, contains \<open>Bearer \<close>) splits into at
  least two pieces, so the index 1 is in range and neither variant of the handler panics
  with an index out of range.
\<close>

theorem C9_split_index_in_bounds:
  assumes "\<not> (length (Header_Authorization r) < 1
              \<or> \<not> Contains (Header_Authorization r) ''Bearer '')"
  shows "2 \<le> length (Split (Header_Authorization r) ''Bearer '')
         \<and> createLinkHandler base uuid now d r \<noteq> Panic ''index out of range [1]''
         \<and> createLinkHandler_base base uuid now d r \<noteq> Panic ''index out of range [1]''"
proof -
  from assms have c: "Contains (Header_Authorization r) ''Bearer ''" by simp
  then obtain s0 token ss where sp: "Split (Header_Authorization r) ''Bearer '' = s0 # token # ss"
    using Contains_Split [of "''Bearer ''" "Header_Authorization r"] by auto
  have "createLinkHandler base uuid now d r \<noteq> Panic ''index out of range [1]''"
    using sp by (simp add: createLinkHandler_def split: prod.splits option.splits)
  moreover have "createLinkHandler_base base uuid now d r \<noteq> Panic ''index out of range [1]''"
    using sp by (simp add: createLinkHandler_base_def split: prod.splits option.splits)
  ultimately show ?thesis using sp by simp
qed

theorem C9_split_index_in_bounds_witness:
  "\<not> (length ''Bearer tok'' < 1 \<or> \<not> Contains ''Bearer tok'' ''Bearer '')
   \<and> 2 \<le> length (Split ''Bearer tok'' ''Bearer '')
   \<and> createLinkHandler ''https://short.example'' ''KwSysDpxcBU9FNhGkn2dCf'' 5 tok_db
        \<lparr>Method = MethodPost, Header_Authorization = ''Bearer tok'', URL_Path = ''/c'',
         Query_url = ''https://example.com''\<rparr> \<noteq> Panic ''index out of range [1]''
   \<and> createLinkHandler_base ''https://short.example'' ''KwSysDpxcBU9FNhGkn2dCf'' 5 tok_db
        \<lparr>Method = MethodPost, Header_Authorization = ''Bearer tok'', URL_Path = ''/c'',
         Query_url = ''https://example.com''\<rparr> \<noteq> Panic ''index out of range [1]''"
proof -
  have h: "\<not> (length ''Bearer tok'' < 1 \<or> \<not> Contains ''Bearer tok'' ''Bearer '')"
    by (simp add: Contains_def)
  show ?thesis
    using h C9_split_index_in_bounds
      [of "\<lparr>Method = MethodPost, Header_Authorization = ''Bearer tok'', URL_Path = ''/c'',
         Query_url = ''https://example.com''\<rparr>"
         "''https://short.example''" "''KwSysDpxcBU9FNhGkn2dCf''" 5 tok_db]
    by simp
qed

text \<open>
  C10. A request path starts with a slash. For two request paths that
  \<open>ParseRequestURI\<close> accepts and that are equal once every slash is removed,
  \<open>getFullUrl\<close> queries the same token and returns the same result.
\<close>

theorem C10_lookup_ignores_slashes:
  assumes "HasPrefix p1 ''/''" and "HasPrefix p2 ''/''"
    and "ParseRequestURI p1 = (Some u1, None)" and "ParseRequestURI p2 = (Some u2, None)"
    and "ReplaceAll p1 ''/'' [] = ReplaceAll p2 ''/'' []"
  shows "ReplaceAll (Path u1) ''/'' [] = ReplaceAll (Path u2) ''/'' []
         \<and> getFullUrl d \<lparr>Value = p1\<rparr> = getFullUrl d \<lparr>Value = p2\<rparr>"
proof -
  let ?strip = "filter (\<lambda>x. x \<noteq> CHR ''/'')"
  let ?cut = "takeWhile (\<lambda>x. x \<noteq> CHR ''?'')"
  from assms(1,2) obtain q1 q2 where p: "p1 = CHR ''/'' # q1" "p2 = CHR ''/'' # q2"
    by (auto simp: HasPrefix_def prefix_def)
  from assms(3,4) have "parse p1 True = Inr u1" "parse p2 True = Inr u2"
    by (auto dest: ParseRequestURI_Some)
  then have un: "unescape (?cut p1) encodePath = Inr (Path u1)"
      "unescape (?cut p2) encodePath = Inr (Path u2)"
    unfolding p by (auto dest: parse_slash_path)
  from assms(5) have "?strip p1 = ?strip p2" by (simp add: ReplaceAll_single)
  then have "?cut (?strip p1) = ?cut (?strip p2)" by simp
  then have eq: "?strip (?cut p1) = ?strip (?cut p2)"
    by (simp add: takeWhile_filter_commute)
  from unescape_path_strip [OF un(1)] obtain t1 where
    t1: "unescape (?strip (?cut p1)) encodePath = Inr t1" "?strip t1 = ?strip (Path u1)" by blast
  from unescape_path_strip [OF un(2)] obtain t2 where
    t2: "unescape (?strip (?cut p2)) encodePath = Inr t2" "?strip t2 = ?strip (Path u2)" by blast
  from t1(1) t2(1) eq have "t1 = t2" by simp
  with t1(2) t2(2) have "?strip (Path u1) = ?strip (Path u2)" by simp
  then have tokens: "ReplaceAll (Path u1) ''/'' [] = ReplaceAll (Path u2) ''/'' []"
    by (simp add: ReplaceAll_single)
  with assms(3,4) show ?thesis by (simp add: getFullUrl_parsed)
qed

theorem C10_lookup_ignores_slashes_witness:
  "HasPrefix ''/ab/c'' ''/'' \<and> HasPrefix ''/abc'' ''/''
   \<and> ReplaceAll ''/ab/c'' ''/'' [] = ReplaceAll ''/abc'' ''/'' []
   \<and> getFullUrl abc_db \<lparr>Value = ''/ab/c''\<rparr> = getFullUrl abc_db \<lparr>Value = ''/abc''\<rparr>
   \<and> getFullUrl abc_db \<lparr>Value = ''/abc''\<rparr> = Return (''https://example.com'', None)"
proof -
  have h: "HasPrefix ''/ab/c'' ''/''" "HasPrefix ''/abc'' ''/''" by (simp_all add: HasPrefix_def)
  have r: "ReplaceAll ''/ab/c'' ''/'' [] = ReplaceAll ''/abc'' ''/'' []" by code_simp
  have p1: "ParseRequestURI ''/ab/c'' = (Some (emptyURL\<lparr>Path := ''/ab/c''\<rparr>), None)" by code_simp
  have p2: "ParseRequestURI ''/abc'' = (Some (emptyURL\<lparr>Path := ''/abc''\<rparr>), None)" by code_simp
  have v: "getFullUrl abc_db \<lparr>Value = ''/abc''\<rparr> = Return (''https://example.com'', None)"
    by code_simp
  from C10_lookup_ignores_slashes [OF h p1 p2 r, of abc_db] h r v show ?thesis by simp
qed

end
